theory Spec2Isabelle
  imports Main "HOL-Library.Word"
begin

unbundle bit_operations_syntax

section \<open>Abstract values and source-tracked stack entries\<close>

text \<open>
  Modelled from the spec: the kinds of abstract values, declared in \<^verbatim>\<open>absvalue.h\<close>,
  which is not among the sources. The kinds are the closed family the specification
  lists; abstract values are interned, one per kind, so a pointer to an abstract value is
  modelled by its kind, and a null pointer by \<open>None\<close>.
\<close>

datatype AbstractValueKind =
    AVK_Any | AVK_Undefined | AVK_Integer | AVK_Float | AVK_Bool | AVK_Bytes
  | AVK_String | AVK_List | AVK_Tuple | AVK_Set | AVK_Dict | AVK_Function
  | AVK_Slice | AVK_Type | AVK_None | AVK_Complex | AVK_Code | AVK_Module
  | AVK_Bytearray | AVK_Memoryview | AVK_Iterable

text \<open>
  \<^verbatim>\<open>AbstractValueWithSources\<close>: a value pointer and a source pointer, either of which
  may be null (\<^verbatim>\<open>hasValue()\<close>, \<^verbatim>\<open>hasSource()\<close>). The type \<open>'s\<close> is what stands for
  the source: the source object itself where a function only reads it, an address into a
  store of source objects where a function writes through the pointer.
\<close>

record 's AbstractValueWithSources =
  Value :: "AbstractValueKind option"
  Sources :: "'s option"

section \<open>The instruction graph\<close>

text \<open>
  The integer types of indices, opcodes and opargs, the \<^verbatim>\<open>Instruction\<close> and \<^verbatim>\<open>Edge\<close>
  structs and the \<^verbatim>\<open>EscapeTransition\<close> enum are declared in \<^verbatim>\<open>instructions.h\<close>, which is
  not among the sources. The structs have the fields that the constructor initialises.
  The integers are natural numbers here: the width of the types is not known. An
  opcode and an oparg read from a code unit are bytes, and the oparg that one prefix
  makes has sixteen bits.
\<close>

type_synonym py_opindex = nat
type_synonym py_opcode = nat
type_synonym py_oparg = nat

text \<open>
  Modelled from the spec: the three opcodes that the graph names. The specification gives
  the names; the numbers are those of the host interpreter's \<^verbatim>\<open>opcode.h\<close>.
\<close>

definition EXTENDED_ARG :: py_opcode where "EXTENDED_ARG = 144"
definition LOAD_FAST :: py_opcode where "LOAD_FAST = 124"
definition STORE_FAST :: py_opcode where "STORE_FAST = 125"

datatype EscapeTransition = NoEscape | Unbox | Box | Unboxed

record Instruction =
  index :: py_opindex
  opcode :: py_opcode
  oparg :: py_oparg
  escape :: bool

text \<open>
  An edge of the graph. The fields \<^verbatim>\<open>label\<close>, \<^verbatim>\<open>value\<close> and \<^verbatim>\<open>source\<close> of the
  source's struct are read by \<^verbatim>\<open>printGraph\<close> only and are left out; \<^verbatim>\<open>from\<close> and
  \<^verbatim>\<open>to\<close> are renamed because they are keywords here.
\<close>

record Edge =
  edge_from :: py_opindex
  edge_to :: py_opindex
  escaped :: EscapeTransition
  kind :: AbstractValueKind
  position :: py_opindex

text \<open>
  The graph owns a map from opcode index to instruction and the vector of edges.
  The map's \<^verbatim>\<open>operator[]\<close> inserts a value-initialised instruction for a missing key.
\<close>

record InstructionGraph =
  instructions :: "py_opindex \<rightharpoonup> Instruction"
  edges :: "Edge list"

definition default_Instruction :: Instruction where
  "default_Instruction = \<lparr>index = 0, opcode = 0, oparg = 0, escape = False\<rparr>"

definition subscript ::
  "(py_opindex \<rightharpoonup> Instruction) \<Rightarrow> py_opindex \<Rightarrow> Instruction \<times> (py_opindex \<rightharpoonup> Instruction)" where
  "subscript m k =
     (case m k of
        Some i \<Rightarrow> (i, m)
      | None \<Rightarrow> (default_Instruction, m(k \<mapsto> default_Instruction)))"

text \<open>The escape flag stored for an index; an absent instruction has none set.\<close>

definition escape_in :: "(py_opindex \<rightharpoonup> Instruction) \<Rightarrow> py_opindex \<Rightarrow> bool" where
  "escape_in m k = (case m k of Some i \<Rightarrow> escape i | None \<Rightarrow> False)"

definition escape_at :: "InstructionGraph \<Rightarrow> py_opindex \<Rightarrow> bool" where
  "escape_at g k = escape_in (instructions g) k"

subsection \<open>getEdges and getEdgesFrom\<close>

text \<open>
  Both functions run the same two loops: the first files every edge whose end point
  (\<open>sel\<close>: \<^verbatim>\<open>to\<close> or \<^verbatim>\<open>from\<close>) is \<open>idx\<close> under its position in an \<^verbatim>\<open>EdgeMap\<close>, a
  later edge replacing an earlier one at the same position, and tracks the largest
  position; the second walks the positions \<open>0..max_position\<close> and collects the edges found.
\<close>

fun filterEdges ::
  "(Edge \<Rightarrow> py_opindex) \<Rightarrow> py_opindex \<Rightarrow> Edge list \<Rightarrow> (nat \<rightharpoonup> Edge) \<times> nat \<Rightarrow> (nat \<rightharpoonup> Edge) \<times> nat" where
  "filterEdges sel idx [] acc = acc"
| "filterEdges sel idx (edge # rest) (filteredEdges, max_position) =
     filterEdges sel idx rest
       (if sel edge = idx
        then (filteredEdges(position edge \<mapsto> edge),
              if position edge > max_position then position edge else max_position)
        else (filteredEdges, max_position))"

definition collectEdges :: "(nat \<rightharpoonup> Edge) \<times> nat \<Rightarrow> Edge list" where
  "collectEdges fm =
     (case fm of (filteredEdges, max_position) \<Rightarrow>
        List.map_filter filteredEdges [0..<Suc max_position])"

definition getEdges :: "InstructionGraph \<Rightarrow> py_opindex \<Rightarrow> Edge list" where
  "getEdges g idx = collectEdges (filterEdges edge_to idx (edges g) (Map.empty, 0))"

definition getEdgesFrom :: "InstructionGraph \<Rightarrow> py_opindex \<Rightarrow> Edge list" where
  "getEdgesFrom g idx = collectEdges (filterEdges edge_from idx (edges g) (Map.empty, 0))"

text \<open>
  Written from the specification's words, for comparison: the inbound and the outbound
  edges of an index are all the edges of the graph that end, respectively start, there.
\<close>

definition inbound_edges :: "InstructionGraph \<Rightarrow> py_opindex \<Rightarrow> Edge list" where
  "inbound_edges g k = filter (\<lambda>e. edge_to e = k) (edges g)"

definition outbound_edges :: "InstructionGraph \<Rightarrow> py_opindex \<Rightarrow> Edge list" where
  "outbound_edges g k = filter (\<lambda>e. edge_from e = k) (edges g)"

subsection \<open>fixEdges\<close>

definition fixEdge ::
  "(py_opindex \<rightharpoonup> Instruction) \<Rightarrow> Edge \<Rightarrow> Edge \<times> (py_opindex \<rightharpoonup> Instruction)" where
  "fixEdge ins edge =
     (case subscript ins (edge_from edge) of (producer_ins, ins1) \<Rightarrow>
        if \<not> escape producer_ins then
          (case subscript ins1 (edge_to edge) of (consumer_ins, ins2) \<Rightarrow>
             if escape consumer_ins then (edge\<lparr>escaped := Unbox\<rparr>, ins2)
             else (edge\<lparr>escaped := NoEscape\<rparr>, ins2))
        else
          (case subscript ins1 (edge_to edge) of (consumer_ins, ins2) \<Rightarrow>
             if escape consumer_ins then (edge\<lparr>escaped := Unboxed\<rparr>, ins2)
             else (edge\<lparr>escaped := Box\<rparr>, ins2)))"

fun fixEdges_loop ::
  "Edge list \<Rightarrow> (py_opindex \<rightharpoonup> Instruction) \<Rightarrow> Edge list \<times> (py_opindex \<rightharpoonup> Instruction)" where
  "fixEdges_loop [] ins = ([], ins)"
| "fixEdges_loop (edge # rest) ins =
     (case fixEdge ins edge of (edge', ins1) \<Rightarrow>
        case fixEdges_loop rest ins1 of (rest', ins2) \<Rightarrow> (edge' # rest', ins2))"

definition fixEdges :: "InstructionGraph \<Rightarrow> InstructionGraph" where
  "fixEdges g =
     (case fixEdges_loop (edges g) (instructions g) of
        (es, ins) \<Rightarrow> g\<lparr>instructions := ins, edges := es\<rparr>)"

text \<open>The two-by-two table of the specification, written from its words.\<close>

fun boxing_table :: "bool \<Rightarrow> bool \<Rightarrow> EscapeTransition" where
  "boxing_table False False = NoEscape"
| "boxing_table False True = Unbox"
| "boxing_table True True = Unboxed"
| "boxing_table True False = Box"

text \<open>An edge as \<^verbatim>\<open>fixEdges\<close> repaints it from the escape flags of a graph.\<close>

definition paint :: "InstructionGraph \<Rightarrow> Edge \<Rightarrow> Edge" where
  "paint g e = e\<lparr>escaped := boxing_table (escape_at g (edge_from e)) (escape_at g (edge_to e))\<rparr>"

subsection \<open>fixInstructions, deoptimizeInstructions, fixLocals\<close>

text \<open>
  The three passes iterate over the instruction map. Its type is declared in
  \<^verbatim>\<open>instructions.h\<close>, which is not among the sources, so the order of iteration is a
  parameter: the list \<open>order\<close> of the keys visited. The whitelists
  \<^verbatim>\<open>supportsUnboxing\<close> and \<^verbatim>\<open>supportsEscaping\<close> (\<^verbatim>\<open>unboxing.h\<close>) and the host's
  \<^verbatim>\<open>PyCompile_OpcodeStackEffect\<close> are parameters as well.
\<close>

definition fixInstruction ::
  "(py_opcode \<Rightarrow> bool) \<Rightarrow> (AbstractValueKind \<Rightarrow> bool) \<Rightarrow> py_opindex \<Rightarrow> InstructionGraph \<Rightarrow> InstructionGraph" where
  "fixInstruction supportsUnboxing supportsEscaping k g =
     (case instructions g k of
        None \<Rightarrow> g
      | Some instruction \<Rightarrow>
          if \<not> supportsUnboxing (opcode instruction) then g
          else if opcode instruction = LOAD_FAST \<or> opcode instruction = STORE_FAST then g
          else if \<not> list_all (\<lambda>edgeIn. supportsEscaping (kind edgeIn)) (getEdges g k) then g
          else if \<not> list_all (\<lambda>edgeOut. supportsEscaping (kind edgeOut)) (getEdgesFrom g k) then g
          else g\<lparr>instructions := (instructions g)(k \<mapsto> instruction\<lparr>escape := True\<rparr>)\<rparr>)"

definition fixInstructions ::
  "(py_opcode \<Rightarrow> bool) \<Rightarrow> (AbstractValueKind \<Rightarrow> bool) \<Rightarrow> py_opindex list \<Rightarrow> InstructionGraph \<Rightarrow> InstructionGraph" where
  "fixInstructions supportsUnboxing supportsEscaping order g =
     fold (fixInstruction supportsUnboxing supportsEscaping) order g"

text \<open>
  The comparison \<^verbatim>\<open>PyCompile_OpcodeStackEffect(..) != (edgesOut.size() - edgesIn.size())\<close>
  has an \<^verbatim>\<open>int\<close> on the left and a \<^verbatim>\<open>size_t\<close> on the right: both sides are compared as
  64-bit unsigned values, the subtraction wrapping around.
\<close>

definition stack_effect_differs :: "int \<Rightarrow> nat \<Rightarrow> nat \<Rightarrow> bool" where
  "stack_effect_differs effect n_out n_in =
     ((word_of_int effect :: 64 word) \<noteq> word_of_nat n_out - word_of_nat n_in)"

definition clear_escape :: "py_opindex \<Rightarrow> Instruction \<Rightarrow> (py_opindex \<rightharpoonup> Instruction) \<Rightarrow> (py_opindex \<rightharpoonup> Instruction)" where
  "clear_escape k instruction ins = ins(k \<mapsto> instruction\<lparr>escape := False\<rparr>)"

definition deoptimizeInstruction ::
  "(py_opcode \<Rightarrow> py_oparg \<Rightarrow> int) \<Rightarrow> py_opindex \<Rightarrow> InstructionGraph \<Rightarrow> InstructionGraph" where
  "deoptimizeInstruction PyCompile_OpcodeStackEffect k g =
     (case instructions g k of
        None \<Rightarrow> g
      | Some instruction \<Rightarrow>
          if \<not> escape instruction then g
          else
            let edgesIn = getEdges g k; edgesOut = getEdgesFrom g k in
            if stack_effect_differs
                 (PyCompile_OpcodeStackEffect (opcode instruction) (oparg instruction))
                 (length edgesOut) (length edgesIn)
            then g\<lparr>instructions := clear_escape k instruction (instructions g)\<rparr>
            else if edgesIn = [] \<and> length edgesOut = 1 then
              (case subscript (instructions g) (edge_to (edgesOut ! 0)) of (next_ins, ins1) \<Rightarrow>
                 if \<not> escape next_ins
                 then g\<lparr>instructions := clear_escape k instruction ins1\<rparr>
                 else g\<lparr>instructions := ins1\<rparr>)
            else if length edgesIn = 1 \<and> edgesOut = [] then
              (case subscript (instructions g) (edge_from (edgesIn ! 0)) of (prev_ins, ins1) \<Rightarrow>
                 if \<not> escape prev_ins
                 then g\<lparr>instructions := clear_escape k instruction ins1\<rparr>
                 else g\<lparr>instructions := ins1\<rparr>)
            else g)"

definition deoptimizeInstructions ::
  "(py_opcode \<Rightarrow> py_oparg \<Rightarrow> int) \<Rightarrow> py_opindex list \<Rightarrow> InstructionGraph \<Rightarrow> InstructionGraph" where
  "deoptimizeInstructions PyCompile_OpcodeStackEffect order g =
     fold (deoptimizeInstruction PyCompile_OpcodeStackEffect) order g"

text \<open>\<^verbatim>\<open>fixLocals\<close> skips every instruction but the two local opcodes, and for those its body is empty.\<close>

definition fixLocal :: "py_opindex \<Rightarrow> InstructionGraph \<Rightarrow> InstructionGraph" where
  "fixLocal k g =
     (case instructions g k of
        None \<Rightarrow> g
      | Some instruction \<Rightarrow>
          if opcode instruction \<noteq> LOAD_FAST \<and> opcode instruction \<noteq> STORE_FAST then g else g)"

definition fixLocals :: "py_opindex list \<Rightarrow> InstructionGraph \<Rightarrow> InstructionGraph" where
  "fixLocals order g = fold fixLocal order g"

text \<open>
  The invariant behind the escape decision: every escaped instruction has a whitelisted
  opcode other than the two local opcodes, and the edges that \<^verbatim>\<open>getEdges\<close> and
  \<^verbatim>\<open>getEdgesFrom\<close> return for it are all of kinds that support escaping.
\<close>

definition escape_justified ::
  "(py_opcode \<Rightarrow> bool) \<Rightarrow> (AbstractValueKind \<Rightarrow> bool) \<Rightarrow> InstructionGraph \<Rightarrow> bool" where
  "escape_justified su se g =
     (\<forall>k ins. instructions g k = Some ins \<longrightarrow> escape ins \<longrightarrow>
        su (opcode ins) \<and> opcode ins \<noteq> LOAD_FAST \<and> opcode ins \<noteq> STORE_FAST
        \<and> list_all (\<lambda>e. se (kind e)) (getEdges g k)
        \<and> list_all (\<lambda>e. se (kind e)) (getEdgesFrom g k))"

subsection \<open>The constructor\<close>

text \<open>
  Modelled from the spec: the macros \<^verbatim>\<open>GET_OPCODE\<close>, \<^verbatim>\<open>GET_OPARG\<close> and
  \<^verbatim>\<open>SIZEOF_CODEUNIT\<close>, which are not among the sources. By the glossary the byte code is
  a linear stream of (opcode, oparg) units of two bytes each; \<open>curByte\<close> is a
  byte offset, so unit \<open>curByte div 2\<close> is read. The analyser's stack at an index is a
  vector of source-tracked values, absent (a null pointer) where the index was not
  reached. Of a source the constructor reads \<^verbatim>\<open>producer()\<close> and
  \<^verbatim>\<open>isConsumedBy(index)\<close>, whose code is not among the sources: both are parameters,
  the second returning \<open>None\<close> for the source's \<open>-1\<close> and the stack position otherwise.
\<close>

type_synonym codeunit = "py_opcode \<times> py_oparg"

definition GET_OPCODE :: "codeunit list \<Rightarrow> py_opindex \<Rightarrow> py_opcode" where
  "GET_OPCODE mByteCode i = fst (mByteCode ! (i div 2))"

definition GET_OPARG :: "codeunit list \<Rightarrow> py_opindex \<Rightarrow> py_oparg" where
  "GET_OPARG mByteCode i = snd (mByteCode ! (i div 2))"

definition stackEdges ::
  "('s \<Rightarrow> py_opindex) \<Rightarrow> ('s \<Rightarrow> py_opindex \<Rightarrow> nat option) \<Rightarrow> py_opindex
     \<Rightarrow> 's AbstractValueWithSources list \<Rightarrow> Edge list" where
  "stackEdges producer isConsumedBy idx stack =
     concat (map (\<lambda>si.
        case Sources si of
          None \<Rightarrow> []
        | Some s \<Rightarrow>
            (case isConsumedBy s idx of
               None \<Rightarrow> []
             | Some stackPosition \<Rightarrow>
                 [\<lparr>edge_from = producer s, edge_to = idx, escaped = NoEscape,
                   kind = (case Value si of Some v \<Rightarrow> v | None \<Rightarrow> AVK_Any),
                   position = stackPosition\<rparr>])) stack)"

text \<open>The tail of the loop body: the edges of the stack at \<open>idx\<close>, then the instruction.\<close>

definition add_instruction ::
  "('s \<Rightarrow> py_opindex) \<Rightarrow> ('s \<Rightarrow> py_opindex \<Rightarrow> nat option)
     \<Rightarrow> (py_opindex \<rightharpoonup> 's AbstractValueWithSources list)
     \<Rightarrow> py_opindex \<Rightarrow> py_opcode \<Rightarrow> py_oparg \<Rightarrow> InstructionGraph \<Rightarrow> InstructionGraph" where
  "add_instruction producer isConsumedBy stacks idx opc arg g =
     \<lparr>instructions = (instructions g)(idx \<mapsto> \<lparr>index = idx, opcode = opc, oparg = arg, escape = False\<rparr>),
      edges = (case stacks idx of
                 None \<Rightarrow> edges g
               | Some stack \<Rightarrow> edges g @ stackEdges producer isConsumedBy idx stack)\<rparr>"

text \<open>
  The decoding loop. An \<^verbatim>\<open>EXTENDED_ARG\<close> unit is recorded under its own index, then the
  next unit is read in the same iteration, its oparg below the prefix's, shifted by eight
  bits. A prefix in the last unit would make the source read past the byte code: \<open>None\<close>.
\<close>

function decode ::
  "('s \<Rightarrow> py_opindex) \<Rightarrow> ('s \<Rightarrow> py_opindex \<Rightarrow> nat option) \<Rightarrow> codeunit list
     \<Rightarrow> (py_opindex \<rightharpoonup> 's AbstractValueWithSources list)
     \<Rightarrow> py_opindex \<Rightarrow> InstructionGraph \<Rightarrow> InstructionGraph option" where
  "decode producer isConsumedBy mByteCode stacks curByte g =
     (if curByte < 2 * length mByteCode then
        if GET_OPCODE mByteCode curByte = EXTENDED_ARG then
          if curByte + 2 < 2 * length mByteCode then
            decode producer isConsumedBy mByteCode stacks (curByte + 2 + 2)
              (add_instruction producer isConsumedBy stacks (curByte + 2)
                 (GET_OPCODE mByteCode (curByte + 2))
                 (push_bit 8 (GET_OPARG mByteCode curByte) OR GET_OPARG mByteCode (curByte + 2))
                 (g\<lparr>instructions := (instructions g)(curByte \<mapsto>
                      \<lparr>index = curByte, opcode = EXTENDED_ARG,
                       oparg = GET_OPARG mByteCode curByte, escape = False\<rparr>)\<rparr>))
          else None
        else
          decode producer isConsumedBy mByteCode stacks (curByte + 2)
            (add_instruction producer isConsumedBy stacks curByte
               (GET_OPCODE mByteCode curByte) (GET_OPARG mByteCode curByte) g)
      else Some g)"
  by pat_completeness auto
termination
  by (relation "measure (\<lambda>(p, c, mByteCode, st, curByte, g). 2 * length mByteCode - curByte)") auto

declare decode.simps [simp del]

text \<open>
  The offsets at which an iteration of the decoding loop starts: after a prefix the loop
  steps over the unit that follows it.
\<close>

function loop_heads :: "codeunit list \<Rightarrow> py_opindex \<Rightarrow> py_opindex list" where
  "loop_heads mByteCode curByte =
     (if curByte < 2 * length mByteCode then
        curByte # loop_heads mByteCode
          (if GET_OPCODE mByteCode curByte = EXTENDED_ARG then curByte + 2 + 2 else curByte + 2)
      else [])"
  by pat_completeness auto
termination
  by (relation "measure (\<lambda>(mByteCode, curByte). 2 * length mByteCode - curByte)") auto

declare loop_heads.simps [simp del]

text \<open>Two instructions that differ at most in the escape flag.\<close>

definition same_code :: "Instruction \<Rightarrow> Instruction \<Rightarrow> bool" where
  "same_code i j = (index j = index i \<and> opcode j = opcode i \<and> oparg j = oparg i)"

text \<open>
  Written from the specification's words, for comparison: the oparg of a sequence of
  prefixes and a terminating unit, each unit's byte below those before it.
\<close>

definition collapsed_oparg :: "py_oparg list \<Rightarrow> py_oparg" where
  "collapsed_oparg args = foldl (\<lambda>acc arg. push_bit 8 acc OR arg) 0 args"

text \<open>
  The constructor: decode, then the four passes. \<open>o1\<close>, \<open>o2\<close> and \<open>o3\<close> are the
  orders in which the three passes over the instruction map visit its keys.
\<close>

definition InstructionGraph_new ::
  "(py_opcode \<Rightarrow> bool) \<Rightarrow> (AbstractValueKind \<Rightarrow> bool) \<Rightarrow> (py_opcode \<Rightarrow> py_oparg \<Rightarrow> int)
     \<Rightarrow> ('s \<Rightarrow> py_opindex) \<Rightarrow> ('s \<Rightarrow> py_opindex \<Rightarrow> nat option)
     \<Rightarrow> py_opindex list \<Rightarrow> py_opindex list \<Rightarrow> py_opindex list
     \<Rightarrow> codeunit list \<Rightarrow> (py_opindex \<rightharpoonup> 's AbstractValueWithSources list)
     \<Rightarrow> InstructionGraph option" where
  "InstructionGraph_new supportsUnboxing supportsEscaping PyCompile_OpcodeStackEffect
       producer isConsumedBy o1 o2 o3 mByteCode stacks =
     (case decode producer isConsumedBy mByteCode stacks 0 \<lparr>instructions = Map.empty, edges = []\<rparr> of
        None \<Rightarrow> None
      | Some g \<Rightarrow>
          Some (fixEdges (fixLocals o3
                  (deoptimizeInstructions PyCompile_OpcodeStackEffect o2
                     (fixInstructions supportsUnboxing supportsEscaping o1 g)))))"

section \<open>Abstract interpreter state\<close>

subsection \<open>Merging values and sources\<close>

text \<open>
  Modelled from the spec: \<^verbatim>\<open>AbstractValue::merge_with\<close>, whose code (\<^verbatim>\<open>absvalue.h\<close>)
  is not among the sources. The specification's merge rule: \<open>merge(a,b) = a\<close> if
  \<open>a = b\<close>, otherwise the kind-wise join, and \<open>Any\<close> where the join is not
  representable; the Undefined value is the identity of the merge. The only join the
  specification names is the one with Undefined, so no other one is representable here.
\<close>

definition kind_join :: "AbstractValueKind \<Rightarrow> AbstractValueKind \<Rightarrow> AbstractValueKind option" where
  "kind_join a b =
     (if a = AVK_Undefined then Some b
      else if b = AVK_Undefined then Some a
      else None)"

definition AbstractValue_merge_with :: "AbstractValueKind \<Rightarrow> AbstractValueKind \<Rightarrow> AbstractValueKind" where
  "AbstractValue_merge_with a b =
     (if a = b then a
      else case kind_join a b of Some k \<Rightarrow> k | None \<Rightarrow> AVK_Any)"

text \<open>
  Modelled from the spec: a source object and the merge of two sources. A source records
  its producing opcode indices (one for a plain source, all of them for a merge of
  several), its escape bit and its consumer set (opcode index and stack position). The
  merge is the multi-source over both, its consumer set the union; by the glossary a
  value has escaped when at least one consumer forces a boxed representation, hence the
  disjunction of the two bits.
\<close>

record AbstractSource =
  producers :: "py_opindex set"
  escapes_bit :: bool
  consumers :: "(py_opindex \<times> nat) set"

fun AbstractSource_combine :: "AbstractSource option \<Rightarrow> AbstractSource option \<Rightarrow> AbstractSource option" where
  "AbstractSource_combine None None = None"
| "AbstractSource_combine (Some a) None = Some a"
| "AbstractSource_combine None (Some b) = Some b"
| "AbstractSource_combine (Some a) (Some b) =
     Some \<lparr>producers = producers a \<union> producers b,
           escapes_bit = (escapes_bit a \<or> escapes_bit b),
           consumers = consumers a \<union> consumers b\<rparr>"

text \<open>
  Modelled from the spec: \<^verbatim>\<open>AbstractValueWithSources::merge_with\<close> merges the two
  values and the two sources. It calls a method through either value pointer, so a null
  value has no merge (\<open>None\<close>).
\<close>

definition AbstractValueWithSources_merge_with ::
  "AbstractSource AbstractValueWithSources \<Rightarrow> AbstractSource AbstractValueWithSources
     \<Rightarrow> AbstractSource AbstractValueWithSources option" where
  "AbstractValueWithSources_merge_with a b =
     (case Value a of
        None \<Rightarrow> None
      | Some u \<Rightarrow>
          (case Value b of
             None \<Rightarrow> None
           | Some v \<Rightarrow>
               Some \<lparr>Value = Some (AbstractValue_merge_with u v),
                     Sources = AbstractSource_combine (Sources a) (Sources b)\<rparr>))"

subsection \<open>AbstractLocalInfo\<close>

datatype failure = AssertionFailed | NullDereference

record 's AbstractLocalInfo =
  ValueInfo :: "'s AbstractValueWithSources"
  IsMaybeUndefined :: bool

text \<open>The two-argument constructor, with its two assertions.\<close>

definition AbstractLocalInfo_new ::
  "'s AbstractValueWithSources \<Rightarrow> bool \<Rightarrow> failure + 's AbstractLocalInfo" where
  "AbstractLocalInfo_new valueInfo isUndefined =
     (if Value valueInfo = None then Inl AssertionFailed
      else if Value valueInfo = Some AVK_Undefined \<and> \<not> isUndefined then Inl AssertionFailed
      else Inr \<lparr>ValueInfo = valueInfo, IsMaybeUndefined = isUndefined\<rparr>)"

text \<open>\<^verbatim>\<open>merge_with\<close> returns a braced pair, which goes through the constructor above.\<close>

definition merge_with ::
  "AbstractSource AbstractLocalInfo \<Rightarrow> AbstractSource AbstractLocalInfo
     \<Rightarrow> failure + AbstractSource AbstractLocalInfo" where
  "merge_with this other =
     (case AbstractValueWithSources_merge_with (ValueInfo this) (ValueInfo other) of
        None \<Rightarrow> Inl NullDereference
      | Some valueInfo \<Rightarrow>
          AbstractLocalInfo_new valueInfo (IsMaybeUndefined this \<or> IsMaybeUndefined other))"

text \<open>State 4 of the source's comment: the Undefined type with the flag off.\<close>

definition undefined_leaked :: "'s AbstractLocalInfo \<Rightarrow> bool" where
  "undefined_leaked x = (Value (ValueInfo x) = Some AVK_Undefined \<and> \<not> IsMaybeUndefined x)"

text \<open>A local info that the constructor returns for its own two fields.\<close>

definition constructed :: "'s AbstractLocalInfo \<Rightarrow> bool" where
  "constructed x = (AbstractLocalInfo_new (ValueInfo x) (IsMaybeUndefined x) = Inr x)"

subsection \<open>InterpreterState\<close>

text \<open>
  A stack entry holds a pointer to its source, and \<^verbatim>\<open>pop\<close> writes through it: the
  source objects live in a store, and the entries of the stack and of the locals hold
  addresses into it. The locals are a copy-on-write vector, which has value semantics: a
  list.
\<close>

type_synonym source_ref = nat
type_synonym source_store = "source_ref \<Rightarrow> AbstractSource"

record InterpreterState =
  m_stack :: "source_ref AbstractValueWithSources list"
  m_locals :: "source_ref AbstractLocalInfo list"

text \<open>
  Modelled from the spec: \<^verbatim>\<open>AbstractValueWithSources::escapes\<close> (\<^verbatim>\<open>absvalue.h\<close>), which
  sets the escape bit of the entry's source, if it has one.
\<close>

definition escapes :: "source_ref AbstractValueWithSources \<Rightarrow> source_store \<Rightarrow> source_store" where
  "escapes v store =
     (case Sources v of
        None \<Rightarrow> store
      | Some r \<Rightarrow> store(r := (store r)\<lparr>escapes_bit := True\<rparr>))"

definition pop ::
  "source_store \<Rightarrow> InterpreterState
     \<Rightarrow> failure + (AbstractValueKind option \<times> source_store \<times> InterpreterState)" where
  "pop store s =
     (if m_stack s = [] then Inl AssertionFailed
      else
        let res = last (m_stack s)
        in Inr (Value res, escapes res store, s\<lparr>m_stack := butlast (m_stack s)\<rparr>))"

definition pop_no_escape ::
  "source_store \<Rightarrow> InterpreterState
     \<Rightarrow> failure + (source_ref AbstractValueWithSources \<times> source_store \<times> InterpreterState)" where
  "pop_no_escape store s =
     (if m_stack s = [] then Inl AssertionFailed
      else
        let res = last (m_stack s)
        in Inr (res, store, s\<lparr>m_stack := butlast (m_stack s)\<rparr>))"

section \<open>Example inputs\<close>

text \<open>
  A source is given by its producer and the list of its consumers (index, stack position).
\<close>

type_synonym ex_source = "py_opindex \<times> (py_opindex \<times> nat) list"

definition ex_producer :: "ex_source \<Rightarrow> py_opindex" where
  "ex_producer s = fst s"

definition ex_isConsumedBy :: "ex_source \<Rightarrow> py_opindex \<Rightarrow> nat option" where
  "ex_isConsumedBy s = map_of (snd s)"

definition ex_supportsUnboxing :: "py_opcode \<Rightarrow> bool" where
  "ex_supportsUnboxing opc = (opc = 100 \<or> opc = 10 \<or> opc = 11)"

definition ex_supportsEscaping :: "AbstractValueKind \<Rightarrow> bool" where
  "ex_supportsEscaping k = (k = AVK_Integer \<or> k = AVK_Float)"

definition ex_StackEffect :: "py_opcode \<Rightarrow> py_oparg \<Rightarrow> int" where
  "ex_StackEffect opc arg =
     (if opc = 100 \<or> opc = 124 then 1
      else if opc = 10 \<or> opc = 11 then 0
      else if opc = 60 then -3
      else -1)"

text \<open>
  A function with a branch: the constant pushed at 0 is consumed at 6 on one path and at
  10 on the other, each time as the top of the stack.
  \<^verbatim>\<open>
   0 LOAD_CONST 0          (100)
   2 LOAD_FAST 0           (124)
   4 POP_JUMP_IF_FALSE 10  (114)
   6 UNARY_NEGATIVE        (11)
   8 RETURN_VALUE          (83)
  10 UNARY_POSITIVE        (10)
  12 RETURN_VALUE          (83)
  \<close>
  At 6 the analyser's stack holds the constant's source with a value of kind Any (the
  kind of an edge is read from the stack of the consumer), at 10 with kind Integer.
\<close>

definition branch_code :: "codeunit list" where
  "branch_code = [(100, 0), (124, 0), (114, 10), (11, 0), (83, 0), (10, 0), (83, 0)]"

definition branch_stacks :: "py_opindex \<rightharpoonup> ex_source AbstractValueWithSources list" where
  "branch_stacks =
     [0 \<mapsto> [],
      2 \<mapsto> [\<lparr>Value = Some AVK_Integer, Sources = Some (0, [(6, 0), (10, 0)])\<rparr>],
      4 \<mapsto> [\<lparr>Value = Some AVK_Integer, Sources = Some (0, [(6, 0), (10, 0)])\<rparr>,
             \<lparr>Value = Some AVK_Bool, Sources = Some (2, [(4, 0)])\<rparr>],
      6 \<mapsto> [\<lparr>Value = Some AVK_Any, Sources = Some (0, [(6, 0), (10, 0)])\<rparr>],
      8 \<mapsto> [\<lparr>Value = Some AVK_Integer, Sources = Some (6, [(8, 0)])\<rparr>],
      10 \<mapsto> [\<lparr>Value = Some AVK_Integer, Sources = Some (0, [(6, 0), (10, 0)])\<rparr>],
      12 \<mapsto> [\<lparr>Value = Some AVK_Integer, Sources = Some (10, [(12, 0)])\<rparr>]]"

definition branch_order :: "py_opindex list" where
  "branch_order = [0, 2, 4, 6, 8, 10, 12]"

text \<open>What the decoding loop builds from this input.\<close>

definition branch_instructions :: "py_opindex \<rightharpoonup> Instruction" where
  "branch_instructions =
     [0 \<mapsto> \<lparr>index = 0, opcode = 100, oparg = 0, escape = False\<rparr>,
      2 \<mapsto> \<lparr>index = 2, opcode = 124, oparg = 0, escape = False\<rparr>,
      4 \<mapsto> \<lparr>index = 4, opcode = 114, oparg = 10, escape = False\<rparr>,
      6 \<mapsto> \<lparr>index = 6, opcode = 11, oparg = 0, escape = False\<rparr>,
      8 \<mapsto> \<lparr>index = 8, opcode = 83, oparg = 0, escape = False\<rparr>,
      10 \<mapsto> \<lparr>index = 10, opcode = 10, oparg = 0, escape = False\<rparr>,
      12 \<mapsto> \<lparr>index = 12, opcode = 83, oparg = 0, escape = False\<rparr>]"

definition branch_edges :: "Edge list" where
  "branch_edges =
     [\<lparr>edge_from = 2, edge_to = 4, escaped = NoEscape, kind = AVK_Bool, position = 0\<rparr>,
      \<lparr>edge_from = 0, edge_to = 6, escaped = NoEscape, kind = AVK_Any, position = 0\<rparr>,
      \<lparr>edge_from = 6, edge_to = 8, escaped = NoEscape, kind = AVK_Integer, position = 0\<rparr>,
      \<lparr>edge_from = 0, edge_to = 10, escaped = NoEscape, kind = AVK_Integer, position = 0\<rparr>,
      \<lparr>edge_from = 10, edge_to = 12, escaped = NoEscape, kind = AVK_Integer, position = 0\<rparr>]"

definition branch_initial :: InstructionGraph where
  "branch_initial = \<lparr>instructions = branch_instructions, edges = branch_edges\<rparr>"

definition branch_decoded :: "InstructionGraph option" where
  "branch_decoded =
     decode ex_producer ex_isConsumedBy branch_code branch_stacks 0
       \<lparr>instructions = Map.empty, edges = []\<rparr>"

definition branch_fixed :: InstructionGraph where
  "branch_fixed = fixInstructions ex_supportsUnboxing ex_supportsEscaping branch_order branch_initial"

definition branch_deoptimized :: InstructionGraph where
  "branch_deoptimized = deoptimizeInstructions ex_StackEffect branch_order branch_fixed"

text \<open>
  A function with a join: two paths meet at 6 with one operand on the stack, the string
  constant pushed at 4 on the path that falls through, the integer constant pushed at 10
  on the path that jumps back from 14. The integer constant is also consumed at 16.
  \<^verbatim>\<open>
   0 LOAD_FAST 0           (124)
   2 POP_JUMP_IF_FALSE 10  (114)
   4 LOAD_CONST 1          (100)
   6 UNARY_POSITIVE        (10)
   8 RETURN_VALUE          (83)
  10 LOAD_CONST 0          (100)
  12 LOAD_FAST 1           (124)
  14 POP_JUMP_IF_TRUE 6    (115)
  16 UNARY_NEGATIVE        (11)
  18 RETURN_VALUE          (83)
  \<close>
  The analyser's state at 6 is the merge of the two paths: by the merge rule the value of
  the operand is of kind Any, and its source is the merge of the two sources, here
  reporting the integer constant as its producer. At 12, 14 and 16 the constant's source
  comes with its own value, of kind Integer.
\<close>

definition join_code :: "codeunit list" where
  "join_code =
     [(124, 0), (114, 10), (100, 1), (10, 0), (83, 0),
      (100, 0), (124, 1), (115, 6), (11, 0), (83, 0)]"

definition join_stacks :: "py_opindex \<rightharpoonup> ex_source AbstractValueWithSources list" where
  "join_stacks =
     [0 \<mapsto> [],
      2 \<mapsto> [\<lparr>Value = Some AVK_Bool, Sources = Some (0, [(2, 0)])\<rparr>],
      4 \<mapsto> [],
      6 \<mapsto> [\<lparr>Value = Some AVK_Any, Sources = Some (10, [(6, 0), (16, 0)])\<rparr>],
      8 \<mapsto> [\<lparr>Value = Some AVK_Any, Sources = Some (6, [(8, 0)])\<rparr>],
      10 \<mapsto> [],
      12 \<mapsto> [\<lparr>Value = Some AVK_Integer, Sources = Some (10, [(6, 0), (16, 0)])\<rparr>],
      14 \<mapsto> [\<lparr>Value = Some AVK_Integer, Sources = Some (10, [(6, 0), (16, 0)])\<rparr>,
              \<lparr>Value = Some AVK_Bool, Sources = Some (12, [(14, 0)])\<rparr>],
      16 \<mapsto> [\<lparr>Value = Some AVK_Integer, Sources = Some (10, [(6, 0), (16, 0)])\<rparr>],
      18 \<mapsto> [\<lparr>Value = Some AVK_Integer, Sources = Some (16, [(18, 0)])\<rparr>]]"

definition join_order :: "py_opindex list" where
  "join_order = [0, 2, 4, 6, 8, 10, 12, 14, 16, 18]"

text \<open>What the decoding loop builds from this input.\<close>

definition join_instructions :: "py_opindex \<rightharpoonup> Instruction" where
  "join_instructions =
     [0 \<mapsto> \<lparr>index = 0, opcode = 124, oparg = 0, escape = False\<rparr>,
      2 \<mapsto> \<lparr>index = 2, opcode = 114, oparg = 10, escape = False\<rparr>,
      4 \<mapsto> \<lparr>index = 4, opcode = 100, oparg = 1, escape = False\<rparr>,
      6 \<mapsto> \<lparr>index = 6, opcode = 10, oparg = 0, escape = False\<rparr>,
      8 \<mapsto> \<lparr>index = 8, opcode = 83, oparg = 0, escape = False\<rparr>,
      10 \<mapsto> \<lparr>index = 10, opcode = 100, oparg = 0, escape = False\<rparr>,
      12 \<mapsto> \<lparr>index = 12, opcode = 124, oparg = 1, escape = False\<rparr>,
      14 \<mapsto> \<lparr>index = 14, opcode = 115, oparg = 6, escape = False\<rparr>,
      16 \<mapsto> \<lparr>index = 16, opcode = 11, oparg = 0, escape = False\<rparr>,
      18 \<mapsto> \<lparr>index = 18, opcode = 83, oparg = 0, escape = False\<rparr>]"

definition join_edges :: "Edge list" where
  "join_edges =
     [\<lparr>edge_from = 0, edge_to = 2, escaped = NoEscape, kind = AVK_Bool, position = 0\<rparr>,
      \<lparr>edge_from = 10, edge_to = 6, escaped = NoEscape, kind = AVK_Any, position = 0\<rparr>,
      \<lparr>edge_from = 6, edge_to = 8, escaped = NoEscape, kind = AVK_Any, position = 0\<rparr>,
      \<lparr>edge_from = 12, edge_to = 14, escaped = NoEscape, kind = AVK_Bool, position = 0\<rparr>,
      \<lparr>edge_from = 10, edge_to = 16, escaped = NoEscape, kind = AVK_Integer, position = 0\<rparr>,
      \<lparr>edge_from = 16, edge_to = 18, escaped = NoEscape, kind = AVK_Integer, position = 0\<rparr>]"

definition join_initial :: InstructionGraph where
  "join_initial = \<lparr>instructions = join_instructions, edges = join_edges\<rparr>"

definition join_deoptimized :: InstructionGraph where
  "join_deoptimized =
     deoptimizeInstructions ex_StackEffect join_order
       (fixInstructions ex_supportsUnboxing ex_supportsEscaping join_order join_initial)"

definition join_graph :: "InstructionGraph option" where
  "join_graph =
     InstructionGraph_new ex_supportsUnboxing ex_supportsEscaping ex_StackEffect
       ex_producer ex_isConsumedBy join_order join_order join_order
       join_code join_stacks"

text \<open>A graph of one constant load, marked escaped, with no edge.\<close>

definition lone_graph :: InstructionGraph where
  "lone_graph =
     \<lparr>instructions = [0 \<mapsto> \<lparr>index = 0, opcode = 100, oparg = 0, escape = True\<rparr>], edges = []\<rparr>"

text \<open>
  A subscript store whose middle operand has no source:
  \<^verbatim>\<open>
   0 LOAD_FAST 0    (124)
   2 LOAD_FAST 1    (124)
   4 LOAD_CONST 0   (100)
   6 STORE_SUBSCR   (60)
  \<close>
  At 6 the stack holds three operands; the first and the last have a source, consumed at
  6 at the positions 2 and 0, the middle one has none.
\<close>

definition subscr_code :: "codeunit list" where
  "subscr_code = [(124, 0), (124, 1), (100, 0), (60, 0)]"

definition subscr_stacks :: "py_opindex \<rightharpoonup> ex_source AbstractValueWithSources list" where
  "subscr_stacks =
     [0 \<mapsto> [],
      2 \<mapsto> [\<lparr>Value = Some AVK_Integer, Sources = Some (0, [(6, 2)])\<rparr>],
      4 \<mapsto> [\<lparr>Value = Some AVK_Integer, Sources = Some (0, [(6, 2)])\<rparr>,
             \<lparr>Value = Some AVK_List, Sources = None\<rparr>],
      6 \<mapsto> [\<lparr>Value = Some AVK_Integer, Sources = Some (0, [(6, 2)])\<rparr>,
             \<lparr>Value = Some AVK_List, Sources = None\<rparr>,
             \<lparr>Value = Some AVK_Integer, Sources = Some (4, [(6, 0)])\<rparr>]]"

definition subscr_graph :: "InstructionGraph option" where
  "subscr_graph =
     InstructionGraph_new ex_supportsUnboxing ex_supportsEscaping ex_StackEffect
       ex_producer ex_isConsumedBy [0, 2, 4, 6] [0, 2, 4, 6] [0, 2, 4, 6] subscr_code subscr_stacks"

text \<open>
  A constant load whose index needs three bytes, hence two prefixes:
  \<^verbatim>\<open>
   0 EXTENDED_ARG 1  (144)
   2 EXTENDED_ARG 2  (144)
   4 LOAD_CONST 3    (100)
  \<close>
  and one whose index needs two bytes.
\<close>

definition wide_code :: "codeunit list" where
  "wide_code = [(144, 1), (144, 2), (100, 3)]"

definition wide_graph :: "InstructionGraph option" where
  "wide_graph =
     InstructionGraph_new ex_supportsUnboxing ex_supportsEscaping ex_StackEffect
       ex_producer ex_isConsumedBy [0, 2, 4] [0, 2, 4] [0, 2, 4] wide_code Map.empty"

definition wide1_code :: "codeunit list" where
  "wide1_code = [(144, 1), (100, 2)]"

definition wide1_graph :: "InstructionGraph option" where
  "wide1_graph =
     InstructionGraph_new ex_supportsUnboxing ex_supportsEscaping ex_StackEffect
       ex_producer ex_isConsumedBy [0, 2] [0, 2] [0, 2] wide1_code Map.empty"

text \<open>
  A store in which no source has escaped, a state with two stack entries and one local
  (the local and the lower entry share source 1), and a state with an empty stack.
\<close>

definition ex_store :: source_store where
  "ex_store r = \<lparr>producers = {r}, escapes_bit = False, consumers = {}\<rparr>"

definition ex_state :: InterpreterState where
  "ex_state =
     \<lparr>m_stack = [\<lparr>Value = Some AVK_Integer, Sources = Some 1\<rparr>,
                 \<lparr>Value = Some AVK_Float, Sources = Some 2\<rparr>],
      m_locals = [\<lparr>ValueInfo = \<lparr>Value = Some AVK_Integer, Sources = Some 1\<rparr>,
                   IsMaybeUndefined = False\<rparr>]\<rparr>"

definition empty_state :: InterpreterState where
  "empty_state = \<lparr>m_stack = [], m_locals = []\<rparr>"

text \<open>Two local infos: a definitely assigned integer and a definitely unassigned local.\<close>

definition ex_int_local :: "AbstractSource AbstractLocalInfo" where
  "ex_int_local =
     \<lparr>ValueInfo = \<lparr>Value = Some AVK_Integer,
                   Sources = Some \<lparr>producers = {0}, escapes_bit = False, consumers = {(4, 0)}\<rparr>\<rparr>,
      IsMaybeUndefined = False\<rparr>"

definition ex_undefined_local :: "AbstractSource AbstractLocalInfo" where
  "ex_undefined_local =
     \<lparr>ValueInfo = \<lparr>Value = Some AVK_Undefined, Sources = None\<rparr>, IsMaybeUndefined = True\<rparr>"

section \<open>Properties of the instruction graph\<close>

subsection \<open>The example function\<close>

lemmas eval_defs =
  fixInstructions_def fixInstruction_def deoptimizeInstructions_def deoptimizeInstruction_def
  getEdges_def getEdgesFrom_def collectEdges_def List.map_filter_simps
  branch_initial_def branch_instructions_def branch_edges_def branch_order_def
  branch_fixed_def branch_deoptimized_def
  ex_supportsUnboxing_def ex_supportsEscaping_def ex_StackEffect_def
  stack_effect_differs_def subscript_def clear_escape_def escape_at_def escape_in_def
  LOAD_FAST_def STORE_FAST_def Let_def

lemma branch_decode: "branch_decoded = Some branch_initial"
  unfolding branch_decoded_def branch_initial_def branch_instructions_def branch_edges_def
  by (simp add: decode.simps branch_code_def branch_stacks_def GET_OPCODE_def GET_OPARG_def
        add_instruction_def stackEdges_def ex_producer_def ex_isConsumedBy_def EXTENDED_ARG_def
        del: add_2_eq_Suc add_2_eq_Suc')

lemma branch_fixed_escape:
  "map (escape_at branch_fixed) [0, 2, 4, 6, 8, 10, 12]
     = [True, False, False, False, False, True, False]"
  by (simp add: eval_defs)

lemma branch_deoptimized_escape:
  "map (escape_at branch_deoptimized) [0, 2, 4, 6, 8, 10, 12]
     = [True, False, False, False, False, True, False]"
  by (simp add: eval_defs)

lemma branch_deoptimized_edges: "edges branch_deoptimized = branch_edges"
  by (simp add: eval_defs)

subsection \<open>Looking up escape flags\<close>

lemma subscript_fst: "escape (fst (subscript m k)) = escape_in m k"
  by (simp add: subscript_def escape_in_def default_Instruction_def split: option.splits)

lemma subscript_snd: "escape_in (snd (subscript m k)) = escape_in m"
  by (rule ext) (simp add: subscript_def escape_in_def default_Instruction_def split: option.splits)

subsection \<open>fixEdges\<close>

lemma fixEdge_fst:
  "fst (fixEdge ins e) =
     e\<lparr>escaped := boxing_table (escape_in ins (edge_from e)) (escape_in ins (edge_to e))\<rparr>"
proof -
  obtain p m1 where s1: "subscript ins (edge_from e) = (p, m1)"
    by (cases "subscript ins (edge_from e)")
  obtain c m2 where s2: "subscript m1 (edge_to e) = (c, m2)"
    by (cases "subscript m1 (edge_to e)")
  have p: "escape p = escape_in ins (edge_from e)"
    using subscript_fst [of ins "edge_from e"] s1 by simp
  have m1: "escape_in m1 = escape_in ins"
    using subscript_snd [of ins "edge_from e"] s1 by simp
  have c: "escape c = escape_in ins (edge_to e)"
    using subscript_fst [of m1 "edge_to e"] s2 m1 by simp
  show ?thesis
    by (cases "escape_in ins (edge_from e)"; cases "escape_in ins (edge_to e)")
       (simp_all add: fixEdge_def s1 s2 p c)
qed

lemma fixEdge_snd: "escape_in (snd (fixEdge ins e)) = escape_in ins"
proof -
  obtain p m1 where s1: "subscript ins (edge_from e) = (p, m1)"
    by (cases "subscript ins (edge_from e)")
  obtain c m2 where s2: "subscript m1 (edge_to e) = (c, m2)"
    by (cases "subscript m1 (edge_to e)")
  have m1: "escape_in m1 = escape_in ins"
    using subscript_snd [of ins "edge_from e"] s1 by simp
  have m2: "escape_in m2 = escape_in m1"
    using subscript_snd [of m1 "edge_to e"] s2 by simp
  show ?thesis by (simp add: fixEdge_def s1 s2 m1 m2)
qed

lemma fixEdges_loop_sound:
  "fst (fixEdges_loop es ins) =
     map (\<lambda>e. e\<lparr>escaped := boxing_table (escape_in ins (edge_from e)) (escape_in ins (edge_to e))\<rparr>) es
   \<and> escape_in (snd (fixEdges_loop es ins)) = escape_in ins"
proof (induction es arbitrary: ins)
  case Nil
  show ?case by simp
next
  case (Cons e es)
  obtain e' ins1 where h: "fixEdge ins e = (e', ins1)"
    by (cases "fixEdge ins e")
  obtain es' ins2 where t: "fixEdges_loop es ins1 = (es', ins2)"
    by (cases "fixEdges_loop es ins1")
  have e': "e' = e\<lparr>escaped := boxing_table (escape_in ins (edge_from e)) (escape_in ins (edge_to e))\<rparr>"
    using fixEdge_fst [of ins e] h by simp
  have i1: "escape_in ins1 = escape_in ins"
    using fixEdge_snd [of ins e] h by simp
  from Cons.IH [of ins1] t i1 e' h show ?case by simp
qed

lemma fixEdges_edges:
  "edges (fixEdges g) =
     map (\<lambda>e. e\<lparr>escaped := boxing_table (escape_at g (edge_from e)) (escape_at g (edge_to e))\<rparr>) (edges g)"
proof -
  obtain es ins where l: "fixEdges_loop (edges g) (instructions g) = (es, ins)"
    by (cases "fixEdges_loop (edges g) (instructions g)")
  from fixEdges_loop_sound [of "edges g" "instructions g"] l
  show ?thesis by (simp add: fixEdges_def escape_at_def)
qed

lemma fixEdges_escape: "escape_at (fixEdges g) k = escape_at g k"
proof -
  obtain es ins where l: "fixEdges_loop (edges g) (instructions g) = (es, ins)"
    by (cases "fixEdges_loop (edges g) (instructions g)")
  from fixEdges_loop_sound [of "edges g" "instructions g"] l
  show ?thesis by (simp add: fixEdges_def escape_at_def)
qed

text \<open>
  C3. After \<^verbatim>\<open>fixEdges\<close> every edge carries the transition that the two-by-two table
  gives for the escape flag of its producer and the escape flag of its consumer:
  (false, false) NoEscape, (false, true) Unbox, (true, true) Unboxed, (true, false) Box.
  The pass changes nothing else of an edge, keeps the edges in their order, and leaves
  every escape flag as it was, so the flags read before and after the pass agree; an
  index without an instruction counts as not escaped, which is what the map's
  \<^verbatim>\<open>operator[]\<close> yields for it.
\<close>

theorem fixEdges_paints_table:
  "edges (fixEdges g) =
     map (\<lambda>e. e\<lparr>escaped := boxing_table (escape_at (fixEdges g) (edge_from e))
                                          (escape_at (fixEdges g) (edge_to e))\<rparr>) (edges g)
   \<and> escape_at (fixEdges g) = escape_at g"
proof -
  have same: "escape_at (fixEdges g) = escape_at g"
    by (rule ext) (rule fixEdges_escape)
  show ?thesis
    unfolding same by (simp add: fixEdges_edges)
qed

theorem fixEdges_paints_table_witness:
  "map escaped (edges (fixEdges branch_deoptimized)) = [NoEscape, Box, NoEscape, Unboxed, Box]"
proof -
  from fixEdges_paints_table [of branch_deoptimized]
  have "edges (fixEdges branch_deoptimized) =
          map (\<lambda>e. e\<lparr>escaped := boxing_table (escape_at branch_deoptimized (edge_from e))
                                               (escape_at branch_deoptimized (edge_to e))\<rparr>)
            (edges branch_deoptimized)"
    by simp
  with branch_deoptimized_edges branch_deoptimized_escape show ?thesis
    by (simp add: branch_edges_def)
qed

subsection \<open>deoptimizeInstructions\<close>

lemma deoptimizeInstruction_mono:
  "escape_at (deoptimizeInstruction eff k g) j \<Longrightarrow> escape_at g j"
  unfolding deoptimizeInstruction_def escape_at_def clear_escape_def Let_def
  by (auto simp: escape_in_def subscript_def default_Instruction_def
           split: option.splits if_splits prod.splits)

lemma deoptimizeInstructions_mono:
  "escape_at (deoptimizeInstructions eff order g) k \<Longrightarrow> escape_at g k"
  unfolding deoptimizeInstructions_def
  by (induction order arbitrary: g) (auto dest: deoptimizeInstruction_mono)

text \<open>
  C4. \<^verbatim>\<open>deoptimizeInstructions\<close> never sets an escape flag: an instruction that is
  escaped after the pass was escaped before it, in whatever order the pass visits the
  instructions. The escaped set after the pass is a subset of the one before.
\<close>

theorem deoptimizeInstructions_never_sets:
  "escape_at (deoptimizeInstructions eff order g) k \<Longrightarrow> escape_at g k"
proof (induction order arbitrary: g)
  case Nil
  then show ?case by (simp add: deoptimizeInstructions_def)
next
  case (Cons j rest)
  from Cons.prems
  have "escape_at (deoptimizeInstructions eff rest (deoptimizeInstruction eff j g)) k"
    by (simp add: deoptimizeInstructions_def)
  then have "escape_at (deoptimizeInstruction eff j g) k" by (rule Cons.IH)
  then show ?case by (rule deoptimizeInstruction_mono)
qed

theorem deoptimizeInstructions_never_sets_witness:
  "escape_at (deoptimizeInstructions ex_StackEffect branch_order branch_fixed) 0
   \<and> escape_at branch_fixed 0"
proof -
  have h: "escape_at (deoptimizeInstructions ex_StackEffect branch_order branch_fixed) 0"
    using branch_deoptimized_escape by (simp add: branch_deoptimized_def)
  from deoptimizeInstructions_never_sets [OF h] h show ?thesis by simp
qed

subsection \<open>getEdges and getEdgesFrom\<close>

text \<open>
  What the first loop leaves in the \<^verbatim>\<open>EdgeMap\<close>: an entry at exactly the positions of
  the edges selected, each entry one of those edges at its own position, and no position
  above the largest one tracked.
\<close>

lemma filterEdges_dom:
  "dom (fst (filterEdges sel idx es (m, mx))) = dom m \<union> position ` {e \<in> set es. sel e = idx}"
  by (induction es arbitrary: m mx) auto

lemma filterEdges_entries:
  "fst (filterEdges sel idx es (m, mx)) p = Some e \<Longrightarrow>
     m p = Some e \<or> (e \<in> set es \<and> sel e = idx \<and> position e = p)"
proof (induction es arbitrary: m mx)
  case Nil
  then show ?case by simp
next
  case (Cons x xs)
  show ?case
  proof (cases "sel x = idx")
    case True
    with Cons.prems
    have "fst (filterEdges sel idx xs (m(position x \<mapsto> x), if position x > mx then position x else mx)) p = Some e"
      by simp
    from Cons.IH [OF this] True show ?thesis
      by (auto split: if_splits)
  next
    case False
    with Cons.prems have "fst (filterEdges sel idx xs (m, mx)) p = Some e" by simp
    from Cons.IH [OF this] show ?thesis by auto
  qed
qed

lemma filterEdges_max:
  "\<forall>p \<in> dom m. p \<le> mx \<Longrightarrow>
     \<forall>p \<in> dom (fst (filterEdges sel idx es (m, mx))). p \<le> snd (filterEdges sel idx es (m, mx))"
proof (induction es arbitrary: m mx)
  case Nil
  then show ?case by simp
next
  case (Cons x xs)
  show ?case
  proof (cases "sel x = idx")
    case True
    have mx: "(if position x > mx then position x else mx) = max mx (position x)"
      by (simp add: max_def)
    have pre: "\<forall>p \<in> dom (m(position x \<mapsto> x)). p \<le> (if position x > mx then position x else mx)"
      unfolding mx using Cons.prems by (auto simp: le_max_iff_disj)
    have step: "filterEdges sel idx (x # xs) (m, mx) =
        filterEdges sel idx xs (m(position x \<mapsto> x), if position x > mx then position x else mx)"
      using True by simp
    show ?thesis unfolding step by (rule Cons.IH) (rule pre)
  next
    case False
    from Cons.IH [OF Cons.prems] False show ?thesis by simp
  qed
qed

lemma map_filter_positions:
  "\<forall>p e. m p = Some e \<longrightarrow> f e = p \<Longrightarrow>
     map f (List.map_filter m xs) = filter (\<lambda>p. p \<in> dom m) xs"
  by (induction xs) (auto simp: List.map_filter_simps split: option.splits)

lemma set_map_filter: "set (List.map_filter m xs) = {e. \<exists>p \<in> set xs. m p = Some e}"
  by (induction xs) (auto simp: List.map_filter_simps split: option.splits)

lemma collect_positions:
  "map position (collectEdges (filterEdges sel idx es (Map.empty, 0)))
     = filter (\<lambda>p. p \<in> position ` {e \<in> set es. sel e = idx})
         [0..<Suc (snd (filterEdges sel idx es (Map.empty, 0)))]"
proof -
  obtain m mx where r: "filterEdges sel idx es (Map.empty, 0) = (m, mx)"
    by (cases "filterEdges sel idx es (Map.empty, 0)")
  have pos: "\<forall>p e. m p = Some e \<longrightarrow> position e = p"
    using filterEdges_entries [of sel idx es Map.empty 0] r by auto
  have d: "dom m = position ` {e \<in> set es. sel e = idx}"
    using filterEdges_dom [of sel idx es Map.empty 0] r by simp
  show ?thesis
    by (simp add: r collectEdges_def map_filter_positions [OF pos] d)
qed

lemma collect_sorted:
  "sorted_wrt (<) (map position (collectEdges (filterEdges sel idx es (Map.empty, 0))))"
  unfolding collect_positions by (rule sorted_wrt_filter) (rule sorted_wrt_upt)

lemma collect_position_set:
  "set (map position (collectEdges (filterEdges sel idx es (Map.empty, 0))))
     = position ` {e \<in> set es. sel e = idx}"
proof -
  obtain m mx where r: "filterEdges sel idx es (Map.empty, 0) = (m, mx)"
    by (cases "filterEdges sel idx es (Map.empty, 0)")
  have d: "dom m = position ` {e \<in> set es. sel e = idx}"
    using filterEdges_dom [of sel idx es Map.empty 0] r by simp
  have "\<forall>p \<in> dom m. p \<le> mx"
    using filterEdges_max [of Map.empty 0 sel idx es] r by simp
  then have "\<forall>p \<in> position ` {e \<in> set es. sel e = idx}. p < Suc mx"
    unfolding d by (simp add: less_Suc_eq_le)
  then show ?thesis
    unfolding collect_positions by (auto simp add: r simp del: upt_Suc)
qed

lemma collect_subset:
  "set (collectEdges (filterEdges sel idx es (Map.empty, 0))) \<subseteq> {e \<in> set es. sel e = idx}"
proof -
  obtain m mx where r: "filterEdges sel idx es (Map.empty, 0) = (m, mx)"
    by (cases "filterEdges sel idx es (Map.empty, 0)")
  have "\<And>p e. m p = Some e \<Longrightarrow> e \<in> set es \<and> sel e = idx"
    using filterEdges_entries [of sel idx es Map.empty 0] r by auto
  then show ?thesis
    by (auto simp: r collectEdges_def set_map_filter)
qed

lemma collect_contiguous:
  assumes "position ` {e \<in> set es. sel e = idx} = {0..<k}"
  shows "map position (collectEdges (filterEdges sel idx es (Map.empty, 0))) = [0..<k]"
proof -
  let ?ps = "map position (collectEdges (filterEdges sel idx es (Map.empty, 0)))"
  have s: "sorted ?ps" and d: "distinct ?ps"
    using collect_sorted [of sel idx es] by (simp_all add: strict_sorted_iff)
  have e: "set ?ps = set [0..<k]"
    using collect_position_set [of sel idx es] assms by simp
  show ?thesis
    by (rule sorted_distinct_set_unique [OF s d _ _ e]) simp_all
qed

lemma collect_length:
  "length (collectEdges (filterEdges sel idx es (Map.empty, 0))) \<le> length es"
proof -
  let ?r = "collectEdges (filterEdges sel idx es (Map.empty, 0))"
  have "distinct (map position ?r)"
    using collect_sorted [of sel idx es] by (simp add: strict_sorted_iff)
  then have "distinct ?r" by (simp add: distinct_map)
  then have "length ?r = card (set ?r)" by (simp add: distinct_card)
  also have "\<dots> \<le> card (set es)"
    using collect_subset [of sel idx es] by (intro card_mono) auto
  also have "\<dots> \<le> length es" by (rule card_length)
  finally show ?thesis .
qed

subsection \<open>The passes that leave the graph alone\<close>

lemma fixLocals_id: "fixLocals order g = g"
  unfolding fixLocals_def
  by (induction order) (simp_all add: fixLocal_def split: option.splits)

lemma subscr_decode:
  "decode ex_producer ex_isConsumedBy subscr_code subscr_stacks 0 \<lparr>instructions = Map.empty, edges = []\<rparr>
     = Some \<lparr>instructions = [0 \<mapsto> \<lparr>index = 0, opcode = 124, oparg = 0, escape = False\<rparr>,
                             2 \<mapsto> \<lparr>index = 2, opcode = 124, oparg = 1, escape = False\<rparr>,
                             4 \<mapsto> \<lparr>index = 4, opcode = 100, oparg = 0, escape = False\<rparr>,
                             6 \<mapsto> \<lparr>index = 6, opcode = 60, oparg = 0, escape = False\<rparr>],
             edges = [\<lparr>edge_from = 0, edge_to = 6, escaped = NoEscape, kind = AVK_Integer, position = 2\<rparr>,
                      \<lparr>edge_from = 4, edge_to = 6, escaped = NoEscape, kind = AVK_Integer, position = 0\<rparr>]\<rparr>"
  by (simp add: decode.simps subscr_code_def subscr_stacks_def GET_OPCODE_def GET_OPARG_def
        add_instruction_def stackEdges_def ex_producer_def ex_isConsumedBy_def EXTENDED_ARG_def
        del: add_2_eq_Suc add_2_eq_Suc')

subsection \<open>Inbound edges by position\<close>

text \<open>
  C7, as stated, fails: the positions of the edges that \<^verbatim>\<open>getEdges\<close> returns need not be
  \<open>0..k-1\<close>. In the subscript store the middle operand has no source, so the
  constructor adds no edge for it, and the two inbound edges of the instruction at 6 sit
  at the positions 0 and 2.
\<close>

theorem getEdges_gap:
  "subscr_graph \<noteq> None
   \<and> map position (getEdges (the subscr_graph) 6) = [0, 2]
   \<and> map position (getEdges (the subscr_graph) 6) \<noteq> [0..<length (getEdges (the subscr_graph) 6)]"
proof -
  have u: "[0..<2] = [0, Suc 0]" by (simp add: upt_rec)
  have a: "subscr_graph \<noteq> None \<and> map position (getEdges (the subscr_graph) 6) = [0, 2]"
    by (simp add: subscr_graph_def InstructionGraph_new_def subscr_decode fixLocals_id
          fixEdges_edges eval_defs u)
  then have "length (map position (getEdges (the subscr_graph) 6)) = 2" by simp
  then have "length (getEdges (the subscr_graph) 6) = 2" by simp
  with a u show ?thesis by simp
qed

text \<open>
  C7, amended. For every index \<open>pc\<close>, the edges that \<^verbatim>\<open>getEdges\<close> returns are edges of
  the graph into \<open>pc\<close>, in strictly ascending position, and their positions are exactly
  the positions that occur among the edges into \<open>pc\<close>, each once. They are \<open>0..k-1\<close>
  whenever the positions of the edges into \<open>pc\<close> are.
\<close>

theorem getEdges_positions:
  "sorted_wrt (<) (map position (getEdges g pc))
   \<and> set (map position (getEdges g pc)) = position ` set (inbound_edges g pc)
   \<and> set (getEdges g pc) \<subseteq> set (inbound_edges g pc)
   \<and> (position ` set (inbound_edges g pc) = {0..<k}
        \<longrightarrow> map position (getEdges g pc) = [0..<k])"
  unfolding getEdges_def inbound_edges_def set_filter
  using collect_sorted [of edge_to pc "edges g"] collect_position_set [of edge_to pc "edges g"]
    collect_subset [of edge_to pc "edges g"] collect_contiguous [of "edges g" edge_to pc k]
  by blast

theorem getEdges_positions_witness:
  "position ` set (inbound_edges branch_initial 6) = {0..<1}
   \<and> map position (getEdges branch_initial 6) = [0..<1]"
proof -
  have "position ` set (inbound_edges branch_initial 6) = {0}"
    by (simp add: inbound_edges_def branch_initial_def branch_edges_def)
  moreover have "{0..<1::nat} = {0}" by auto
  ultimately have h: "position ` set (inbound_edges branch_initial 6) = {0..<1}"
    by simp
  with getEdges_positions [of branch_initial 6 1] show ?thesis by blast
qed

subsection \<open>The stack-effect check of deoptimizeInstructions\<close>

lemma getEdges_edges_cong: "edges g' = edges g \<Longrightarrow> getEdges g' k = getEdges g k"
  by (simp add: getEdges_def)

lemma getEdgesFrom_edges_cong: "edges g' = edges g \<Longrightarrow> getEdgesFrom g' k = getEdgesFrom g k"
  by (simp add: getEdgesFrom_def)

lemma subscript_keeps: "m k = Some i \<Longrightarrow> snd (subscript m j) k = Some i"
  by (auto simp: subscript_def split: option.splits)

lemma deoptimizeInstruction_edges: "edges (deoptimizeInstruction eff j g) = edges g"
  by (simp add: deoptimizeInstruction_def Let_def split_beta split: option.splits)

lemma deoptimizeInstruction_other:
  "instructions g k = Some ins \<Longrightarrow> j \<noteq> k \<Longrightarrow>
     instructions (deoptimizeInstruction eff j g) k = Some ins"
  by (simp add: deoptimizeInstruction_def Let_def split_beta clear_escape_def subscript_keeps
           split: option.splits)

lemma deoptimizeInstruction_self:
  assumes "instructions g k = Some ins" "escape ins"
    and "stack_effect_differs (eff (opcode ins) (oparg ins))
           (length (getEdgesFrom g k)) (length (getEdges g k))"
  shows "\<not> escape_at (deoptimizeInstruction eff k g) k"
  using assms
  by (simp add: deoptimizeInstruction_def Let_def clear_escape_def escape_at_def escape_in_def)

lemma deoptimizeInstructions_clears:
  assumes "instructions g k = Some ins" "escape ins" "k \<in> set order"
    and "stack_effect_differs (eff (opcode ins) (oparg ins))
           (length (getEdgesFrom g k)) (length (getEdges g k))"
  shows "\<not> escape_at (deoptimizeInstructions eff order g) k"
  using assms
proof (induction order arbitrary: g)
  case Nil
  then show ?case by simp
next
  case (Cons j rest)
  have unfold: "deoptimizeInstructions eff (j # rest) g
                  = deoptimizeInstructions eff rest (deoptimizeInstruction eff j g)"
    by (simp add: deoptimizeInstructions_def)
  show ?case
  proof (cases "j = k")
    case True
    have "\<not> escape_at (deoptimizeInstruction eff k g) k"
      using Cons.prems(1,2,4) by (rule deoptimizeInstruction_self)
    then have "\<not> escape_at (deoptimizeInstructions eff rest (deoptimizeInstruction eff k g)) k"
      using deoptimizeInstructions_mono by blast
    then show ?thesis
      using unfold True by simp
  next
    case False
    let ?g = "deoptimizeInstruction eff j g"
    have i: "instructions ?g k = Some ins"
      using Cons.prems(1) False by (rule deoptimizeInstruction_other)
    have e: "edges ?g = edges g" by (rule deoptimizeInstruction_edges)
    have m: "k \<in> set rest" using Cons.prems(3) False by simp
    have d: "stack_effect_differs (eff (opcode ins) (oparg ins))
               (length (getEdgesFrom ?g k)) (length (getEdges ?g k))"
      using Cons.prems(4) by (simp add: getEdges_edges_cong [OF e] getEdgesFrom_edges_cong [OF e])
    show ?thesis
      unfolding unfold by (rule Cons.IH [OF i Cons.prems(2) m d])
  qed
qed

lemma sint_of_int_64:
  "- (2 ^ 63) \<le> k \<Longrightarrow> k < 2 ^ 63 \<Longrightarrow> sint (word_of_int k :: 64 word) = k"
  by (simp add: signed_of_int signed_take_bit_int_eq_self)

lemma stack_effect_differs_int:
  assumes "- (2 ^ 63) \<le> e" "e < 2 ^ 63" "n_out < 2 ^ 63" "n_in < 2 ^ 63"
  shows "stack_effect_differs e n_out n_in \<longleftrightarrow> e \<noteq> int n_out - int n_in"
proof -
  let ?d = "int n_out - int n_in"
  have w: "(word_of_nat n_out - word_of_nat n_in :: 64 word) = word_of_int ?d"
    by simp
  have d1: "- (2 ^ 63) \<le> ?d" and d2: "?d < 2 ^ 63"
    using assms(3,4) by simp_all
  have A: "sint (word_of_int e :: 64 word) = e"
    using assms(1,2) by (rule sint_of_int_64)
  have B: "sint (word_of_int ?d :: 64 word) = ?d"
    using d1 d2 by (rule sint_of_int_64)
  have "(word_of_int e :: 64 word) = word_of_int ?d \<longleftrightarrow> e = ?d"
    using A B by metis
  then show ?thesis
    unfolding stack_effect_differs_def w by blast
qed

text \<open>
  C5, as stated, fails when the numbers of edges are counted over the edges of the graph.
  In the example function the constant pushed at 0 has two outbound edges, one into each
  branch, both at position 0; its stack effect is 1, which differs from \<open>2 - 0\<close>, and yet
  the pass leaves it escaped: \<^verbatim>\<open>getEdgesFrom\<close> keeps one edge per position.
\<close>

theorem stack_effect_counts_all_edges_counterexample:
  "instructions branch_fixed 0 = Some \<lparr>index = 0, opcode = 100, oparg = 0, escape = True\<rparr>
   \<and> ex_StackEffect 100 0
        \<noteq> int (length (outbound_edges branch_fixed 0)) - int (length (inbound_edges branch_fixed 0))
   \<and> escape_at (deoptimizeInstructions ex_StackEffect branch_order branch_fixed) 0"
proof -
  have a: "instructions branch_fixed 0 = Some \<lparr>index = 0, opcode = 100, oparg = 0, escape = True\<rparr>"
    by (simp add: eval_defs)
  have b: "edges branch_fixed = branch_edges" by (simp add: eval_defs)
  have c: "length (outbound_edges branch_fixed 0) = 2 \<and> length (inbound_edges branch_fixed 0) = 0"
    by (simp add: outbound_edges_def inbound_edges_def b branch_edges_def)
  have d: "escape_at (deoptimizeInstructions ex_StackEffect branch_order branch_fixed) 0"
    using branch_deoptimized_escape by (simp add: branch_deoptimized_def)
  from a c d show ?thesis by (simp add: ex_StackEffect_def)
qed

text \<open>
  C5, amended. For every instruction that is escaped on entry to
  \<^verbatim>\<open>deoptimizeInstructions\<close> and that the pass visits: if the stack effect of its opcode
  and oparg differs from the number of edges that \<^verbatim>\<open>getEdgesFrom\<close> returns for it minus the
  number that \<^verbatim>\<open>getEdges\<close> returns (one edge per stack position), the pass clears its
  escape flag. The stack effect is a C \<^verbatim>\<open>int\<close>, and the graph has fewer than \<open>2^63\<close>
  edges, so the 64-bit unsigned comparison of the source decides exactly this.
\<close>

theorem deoptimize_reverts_wrong_stack_effect:
  assumes "instructions g k = Some ins" and "escape ins" and "k \<in> set order"
    and "- (2 ^ 31) \<le> eff (opcode ins) (oparg ins)" and "eff (opcode ins) (oparg ins) < 2 ^ 31"
    and "length (edges g) < 2 ^ 63"
    and "eff (opcode ins) (oparg ins)
           \<noteq> int (length (getEdgesFrom g k)) - int (length (getEdges g k))"
  shows "\<not> escape_at (deoptimizeInstructions eff order g) k"
proof -
  have o: "length (getEdgesFrom g k) < 2 ^ 63"
    using collect_length [of edge_from k "edges g"] assms(6) by (simp add: getEdgesFrom_def)
  have i: "length (getEdges g k) < 2 ^ 63"
    using collect_length [of edge_to k "edges g"] assms(6) by (simp add: getEdges_def)
  have lo: "- (2 ^ 63) \<le> eff (opcode ins) (oparg ins)"
    using assms(4) by simp
  have hi: "eff (opcode ins) (oparg ins) < 2 ^ 63"
    using assms(5) by simp
  have "stack_effect_differs (eff (opcode ins) (oparg ins))
          (length (getEdgesFrom g k)) (length (getEdges g k))"
    using stack_effect_differs_int [OF lo hi o i] assms(7) by simp
  with assms(1,2,3) show ?thesis by (rule deoptimizeInstructions_clears)
qed

theorem deoptimize_reverts_wrong_stack_effect_witness:
  "instructions lone_graph 0 = Some \<lparr>index = 0, opcode = 100, oparg = 0, escape = True\<rparr>
   \<and> ex_StackEffect 100 0 \<noteq> int (length (getEdgesFrom lone_graph 0)) - int (length (getEdges lone_graph 0))
   \<and> \<not> escape_at (deoptimizeInstructions ex_StackEffect [0] lone_graph) 0"
proof -
  let ?ins = "\<lparr>index = 0, opcode = 100, oparg = 0, escape = True\<rparr>"
  have a: "instructions lone_graph 0 = Some ?ins" by (simp add: lone_graph_def)
  have b: "escape ?ins" by simp
  have c: "(0::nat) \<in> set [0]" by simp
  have d: "- (2 ^ 31) \<le> ex_StackEffect (opcode ?ins) (oparg ?ins)" by (simp add: ex_StackEffect_def)
  have e: "ex_StackEffect (opcode ?ins) (oparg ?ins) < 2 ^ 31" by (simp add: ex_StackEffect_def)
  have f: "length (edges lone_graph) < 2 ^ 63" by (simp add: lone_graph_def)
  have g: "ex_StackEffect (opcode ?ins) (oparg ?ins)
             \<noteq> int (length (getEdgesFrom lone_graph 0)) - int (length (getEdges lone_graph 0))"
    by (simp add: ex_StackEffect_def lone_graph_def getEdges_def getEdgesFrom_def collectEdges_def)
  from deoptimize_reverts_wrong_stack_effect [where eff = ex_StackEffect, OF a b c d e f g] a g
  show ?thesis by simp
qed

subsection \<open>The escape decision after the constructor\<close>

lemma list_all_kind_cong:
  assumes "map kind xs = map kind ys"
  shows "list_all (\<lambda>e. se (kind e)) xs = list_all (\<lambda>e. se (kind e)) ys"
proof -
  from assms have "list_all se (map kind xs) = list_all se (map kind ys)" by simp
  then show ?thesis by (simp add: list_all_iff)
qed

lemma escape_justifiedI:
  assumes "\<And>k ins. instructions g' k = Some ins \<Longrightarrow> escape ins \<Longrightarrow> instructions g k = Some ins"
    and "map kind (edges g') = map kind (edges g)"
    and "\<And>k. map kind (getEdges g' k) = map kind (getEdges g k)"
    and "\<And>k. map kind (getEdgesFrom g' k) = map kind (getEdgesFrom g k)"
    and "escape_justified su se g"
  shows "escape_justified su se g'"
proof -
  note l = list_all_kind_cong [of _ _ se]
  show ?thesis
    unfolding escape_justified_def
  proof (intro allI impI)
    fix k ins
    assume a: "instructions g' k = Some ins" and b: "escape ins"
    from assms(1) [OF a b] have "instructions g k = Some ins" .
    with assms(5) b have
      "su (opcode ins) \<and> opcode ins \<noteq> LOAD_FAST \<and> opcode ins \<noteq> STORE_FAST
        \<and> list_all (\<lambda>e. se (kind e)) (getEdges g k)
        \<and> list_all (\<lambda>e. se (kind e)) (getEdgesFrom g k)"
      unfolding escape_justified_def by blast
    then show "su (opcode ins) \<and> opcode ins \<noteq> LOAD_FAST \<and> opcode ins \<noteq> STORE_FAST
        \<and> list_all (\<lambda>e. se (kind e)) (getEdges g' k)
        \<and> list_all (\<lambda>e. se (kind e)) (getEdgesFrom g' k)"
      using l [OF assms(3) [of k]] l [OF assms(4) [of k]] by simp
  qed
qed

text \<open>The decoding loop sets no escape flag.\<close>

lemma add_instruction_no_escape:
  "\<forall>k. \<not> escape_at g k \<Longrightarrow> \<forall>k. \<not> escape_at (add_instruction p c st idx opc arg g) k"
  by (simp add: add_instruction_def escape_at_def escape_in_def)

lemma decode_no_escape:
  "decode p c code st curByte g = Some g' \<Longrightarrow> \<forall>k. \<not> escape_at g k \<Longrightarrow> \<forall>k. \<not> escape_at g' k"
proof (induction p c code st curByte g rule: decode.induct)
  case (1 p c code st curByte g)
  show ?case
  proof (cases "curByte < 2 * length code")
    case False
    with "1.prems" show ?thesis by (simp add: decode.simps [of p c code st curByte g])
  next
    case inside: True
    show ?thesis
    proof (cases "GET_OPCODE code curByte = EXTENDED_ARG")
      case ext: True
      show ?thesis
      proof (cases "curByte + 2 < 2 * length code")
        case False
        with inside ext "1.prems"(1) show ?thesis
          by (simp add: decode.simps [of p c code st curByte g])
      next
        case more: True
        let ?g1 = "g\<lparr>instructions := (instructions g)(curByte \<mapsto>
                      \<lparr>index = curByte, opcode = EXTENDED_ARG,
                       oparg = GET_OPARG code curByte, escape = False\<rparr>)\<rparr>"
        let ?g2 = "add_instruction p c st (curByte + 2) (GET_OPCODE code (curByte + 2))
                 (push_bit 8 (GET_OPARG code curByte) OR GET_OPARG code (curByte + 2)) ?g1"
        have n1: "\<forall>k. \<not> escape_at ?g1 k"
          using "1.prems"(2) by (simp add: escape_at_def escape_in_def)
        have n2: "\<forall>k. \<not> escape_at ?g2 k"
          using n1 by (rule add_instruction_no_escape)
        have d: "decode p c code st (curByte + 2 + 2) ?g2 = Some g'"
          using "1.prems"(1) inside ext more
          by (simp add: decode.simps [of p c code st curByte g])
        from "1.IH"(1) [OF inside ext more d n2] show ?thesis .
      qed
    next
      case plain: False
      let ?g2 = "add_instruction p c st curByte (GET_OPCODE code curByte) (GET_OPARG code curByte) g"
      have n2: "\<forall>k. \<not> escape_at ?g2 k"
        using "1.prems"(2) by (rule add_instruction_no_escape)
      have d: "decode p c code st (curByte + 2) ?g2 = Some g'"
        using "1.prems"(1) inside plain
        by (simp add: decode.simps [of p c code st curByte g])
      from "1.IH"(2) [OF inside plain d n2] show ?thesis .
    qed
  qed
qed

lemma not_escape_atD: "\<not> escape_at g k \<Longrightarrow> instructions g k = Some ins \<Longrightarrow> \<not> escape ins"
  by (simp add: escape_at_def escape_in_def)

lemma no_escape_justified: "\<forall>k. \<not> escape_at g k \<Longrightarrow> escape_justified su se g"
  unfolding escape_justified_def using not_escape_atD by blast

text \<open>\<^verbatim>\<open>fixInstructions\<close> sets a flag only where the invariant allows it.\<close>

lemma fixInstruction_cases:
  "fixInstruction su se k g = g \<or>
   (\<exists>ins. instructions g k = Some ins \<and> su (opcode ins)
      \<and> opcode ins \<noteq> LOAD_FAST \<and> opcode ins \<noteq> STORE_FAST
      \<and> list_all (\<lambda>e. se (kind e)) (getEdges g k)
      \<and> list_all (\<lambda>e. se (kind e)) (getEdgesFrom g k)
      \<and> fixInstruction su se k g = g\<lparr>instructions := (instructions g)(k \<mapsto> ins\<lparr>escape := True\<rparr>)\<rparr>)"
  by (simp add: fixInstruction_def split: option.splits)

lemma fixInstruction_justified:
  assumes "escape_justified su se g"
  shows "escape_justified su se (fixInstruction su se k g)"
proof -
  from fixInstruction_cases [of su se k g] show ?thesis
  proof
    assume "fixInstruction su se k g = g"
    with assms show ?thesis by simp
  next
    assume "\<exists>ins. instructions g k = Some ins \<and> su (opcode ins)
      \<and> opcode ins \<noteq> LOAD_FAST \<and> opcode ins \<noteq> STORE_FAST
      \<and> list_all (\<lambda>e. se (kind e)) (getEdges g k)
      \<and> list_all (\<lambda>e. se (kind e)) (getEdgesFrom g k)
      \<and> fixInstruction su se k g = g\<lparr>instructions := (instructions g)(k \<mapsto> ins\<lparr>escape := True\<rparr>)\<rparr>"
    then obtain ins where i: "instructions g k = Some ins" and u: "su (opcode ins)"
      and lf: "opcode ins \<noteq> LOAD_FAST" and sf: "opcode ins \<noteq> STORE_FAST"
      and ei: "list_all (\<lambda>e. se (kind e)) (getEdges g k)"
      and eo: "list_all (\<lambda>e. se (kind e)) (getEdgesFrom g k)"
      and r: "fixInstruction su se k g = g\<lparr>instructions := (instructions g)(k \<mapsto> ins\<lparr>escape := True\<rparr>)\<rparr>"
      by blast
    show ?thesis
      unfolding r escape_justified_def
    proof (intro allI impI)
      fix j x
      assume a: "instructions (g\<lparr>instructions := (instructions g)(k \<mapsto> ins\<lparr>escape := True\<rparr>)\<rparr>) j = Some x"
        and b: "escape x"
      have ge: "\<And>i. getEdges (g\<lparr>instructions := (instructions g)(k \<mapsto> ins\<lparr>escape := True\<rparr>)\<rparr>) i = getEdges g i"
        by (simp add: getEdges_def)
      have gf: "\<And>i. getEdgesFrom (g\<lparr>instructions := (instructions g)(k \<mapsto> ins\<lparr>escape := True\<rparr>)\<rparr>) i = getEdgesFrom g i"
        by (simp add: getEdgesFrom_def)
      show "su (opcode x) \<and> opcode x \<noteq> LOAD_FAST \<and> opcode x \<noteq> STORE_FAST
        \<and> list_all (\<lambda>e. se (kind e)) (getEdges (g\<lparr>instructions := (instructions g)(k \<mapsto> ins\<lparr>escape := True\<rparr>)\<rparr>) j)
        \<and> list_all (\<lambda>e. se (kind e)) (getEdgesFrom (g\<lparr>instructions := (instructions g)(k \<mapsto> ins\<lparr>escape := True\<rparr>)\<rparr>) j)"
      proof (cases "j = k")
        case True
        with a have "x = ins\<lparr>escape := True\<rparr>" by simp
        with True u lf sf ei eo show ?thesis by (simp add: ge gf)
      next
        case False
        with a have "instructions g j = Some x" by simp
        with assms b show ?thesis unfolding escape_justified_def ge gf by blast
      qed
    qed
  qed
qed

lemma fixInstructions_justified:
  "escape_justified su se g \<Longrightarrow> escape_justified su se (fixInstructions su se order g)"
  unfolding fixInstructions_def
  by (induction order arbitrary: g) (simp_all add: fixInstruction_justified)

text \<open>\<^verbatim>\<open>deoptimizeInstructions\<close> clears flags and inserts instructions that are not escaped.\<close>

lemma subscript_escaped:
  "snd (subscript m j) k = Some ins \<Longrightarrow> escape ins \<Longrightarrow> m k = Some ins"
  by (auto simp: subscript_def default_Instruction_def split: option.splits if_splits)

lemma clear_escape_escaped:
  "clear_escape j i m k = Some ins \<Longrightarrow> escape ins \<Longrightarrow> m k = Some ins"
  by (auto simp: clear_escape_def split: if_splits)

lemma deoptimizeInstruction_escaped:
  "instructions (deoptimizeInstruction eff j g) k = Some ins \<Longrightarrow> escape ins \<Longrightarrow>
     instructions g k = Some ins"
  by (auto simp: deoptimizeInstruction_def Let_def split_beta
           split: option.splits if_splits
           dest: subscript_escaped clear_escape_escaped)

lemma deoptimizeInstruction_justified:
  assumes "escape_justified su se g"
  shows "escape_justified su se (deoptimizeInstruction eff j g)"
proof (rule escape_justifiedI [OF _ _ _ _ assms])
  have e: "edges (deoptimizeInstruction eff j g) = edges g"
    by (rule deoptimizeInstruction_edges)
  show "map kind (edges (deoptimizeInstruction eff j g)) = map kind (edges g)"
    by (simp add: e)
  show "\<And>k. map kind (getEdges (deoptimizeInstruction eff j g) k) = map kind (getEdges g k)"
    by (simp add: getEdges_edges_cong [OF e])
  show "\<And>k. map kind (getEdgesFrom (deoptimizeInstruction eff j g) k) = map kind (getEdgesFrom g k)"
    by (simp add: getEdgesFrom_edges_cong [OF e])
  show "\<And>k ins. instructions (deoptimizeInstruction eff j g) k = Some ins \<Longrightarrow> escape ins \<Longrightarrow>
          instructions g k = Some ins"
    by (rule deoptimizeInstruction_escaped)
qed

lemma deoptimizeInstructions_justified:
  "escape_justified su se g \<Longrightarrow> escape_justified su se (deoptimizeInstructions eff order g)"
  unfolding deoptimizeInstructions_def
  by (induction order arbitrary: g) (simp_all add: deoptimizeInstruction_justified)

text \<open>\<^verbatim>\<open>fixEdges\<close> repaints the edges and inserts instructions that are not escaped.\<close>

lemma fixEdge_snd_eq:
  "snd (fixEdge ins e) = snd (subscript (snd (subscript ins (edge_from e))) (edge_to e))"
  by (simp add: fixEdge_def split_beta)

lemma fixEdges_loop_escaped:
  "snd (fixEdges_loop es m) k = Some ins \<Longrightarrow> escape ins \<Longrightarrow> m k = Some ins"
proof (induction es arbitrary: m)
  case Nil
  then show ?case by simp
next
  case (Cons e es)
  from Cons.prems(1) have "snd (fixEdges_loop es (snd (fixEdge m e))) k = Some ins"
    by (simp add: split_beta)
  from Cons.IH [OF this Cons.prems(2)] have "snd (fixEdge m e) k = Some ins" .
  then show ?case
    unfolding fixEdge_snd_eq using Cons.prems(2) by (blast dest: subscript_escaped)
qed

lemma fixEdges_escaped:
  "instructions (fixEdges g) k = Some ins \<Longrightarrow> escape ins \<Longrightarrow> instructions g k = Some ins"
  using fixEdges_loop_escaped [of "edges g" "instructions g" k ins]
  by (simp add: fixEdges_def split_beta)

lemma filterEdges_map:
  assumes "\<And>e. sel (f e) = sel e" and "\<And>e. position (f e) = position e"
  shows "filterEdges sel idx (map f es) (map_option f \<circ> m, mx)
           = (map_option f \<circ> fst (filterEdges sel idx es (m, mx)),
              snd (filterEdges sel idx es (m, mx)))"
proof (induction es arbitrary: m mx)
  case Nil
  show ?case by (simp only: list.map filterEdges.simps fst_conv snd_conv)
next
  case (Cons e es)
  have u: "(map_option f \<circ> m)(position e \<mapsto> f e) = map_option f \<circ> (m(position e \<mapsto> e))"
    by (rule ext) simp
  show ?case
  proof (cases "sel e = idx")
    case True
    let ?mx = "if position e > mx then position e else mx"
    have "filterEdges sel idx (map f (e # es)) (map_option f \<circ> m, mx)
            = filterEdges sel idx (map f es) ((map_option f \<circ> m)(position e \<mapsto> f e), ?mx)"
      using True by (simp only: list.map filterEdges.simps assms if_True simp_thms)
    also have "\<dots> = filterEdges sel idx (map f es) (map_option f \<circ> (m(position e \<mapsto> e)), ?mx)"
      by (simp only: u)
    also have "\<dots> = (map_option f \<circ> fst (filterEdges sel idx es (m(position e \<mapsto> e), ?mx)),
                      snd (filterEdges sel idx es (m(position e \<mapsto> e), ?mx)))"
      by (rule Cons.IH)
    also have "filterEdges sel idx es (m(position e \<mapsto> e), ?mx) = filterEdges sel idx (e # es) (m, mx)"
      using True by (simp only: filterEdges.simps if_True simp_thms)
    finally show ?thesis .
  next
    case False
    have "filterEdges sel idx (map f (e # es)) (map_option f \<circ> m, mx)
            = filterEdges sel idx (map f es) (map_option f \<circ> m, mx)"
      using False by (simp only: list.map filterEdges.simps assms if_False simp_thms)
    also have "\<dots> = (map_option f \<circ> fst (filterEdges sel idx es (m, mx)),
                      snd (filterEdges sel idx es (m, mx)))"
      by (rule Cons.IH)
    also have "filterEdges sel idx es (m, mx) = filterEdges sel idx (e # es) (m, mx)"
      using False by (simp only: filterEdges.simps if_False simp_thms)
    finally show ?thesis .
  qed
qed

lemma map_filter_map:
  "List.map_filter (map_option f \<circ> m) xs = map f (List.map_filter m xs)"
  by (induction xs) (auto simp: List.map_filter_simps split: option.splits)

lemma collect_map:
  assumes "\<And>e. sel (f e) = sel e" and "\<And>e. position (f e) = position e"
  shows "collectEdges (filterEdges sel idx (map f es) (Map.empty, 0))
           = map f (collectEdges (filterEdges sel idx es (Map.empty, 0)))"
proof -
  have e: "(Map.empty :: nat \<rightharpoonup> Edge) = map_option f \<circ> Map.empty" by (rule ext) simp
  have "filterEdges sel idx (map f es) (map_option f \<circ> Map.empty, 0)
          = (map_option f \<circ> fst (filterEdges sel idx es (Map.empty, 0)),
             snd (filterEdges sel idx es (Map.empty, 0)))"
    using assms by (rule filterEdges_map)
  then show ?thesis
    by (simp add: e [symmetric] collectEdges_def split_beta map_filter_map)
qed

lemma fixEdges_edges_paint: "edges (fixEdges g) = map (paint g) (edges g)"
  unfolding paint_def by (rule fixEdges_edges)

lemma getEdges_fixEdges: "getEdges (fixEdges g) k = map (paint g) (getEdges g k)"
  unfolding getEdges_def fixEdges_edges_paint
  by (rule collect_map) (simp_all add: paint_def)

lemma getEdgesFrom_fixEdges: "getEdgesFrom (fixEdges g) k = map (paint g) (getEdgesFrom g k)"
  unfolding getEdgesFrom_def fixEdges_edges_paint
  by (rule collect_map) (simp_all add: paint_def)

lemma fixEdges_justified:
  assumes "escape_justified su se g"
  shows "escape_justified su se (fixEdges g)"
proof (rule escape_justifiedI [OF _ _ _ _ assms])
  show "map kind (edges (fixEdges g)) = map kind (edges g)"
    by (simp add: fixEdges_edges_paint paint_def)
  show "\<And>k. map kind (getEdges (fixEdges g) k) = map kind (getEdges g k)"
    by (simp add: getEdges_fixEdges paint_def)
  show "\<And>k. map kind (getEdgesFrom (fixEdges g) k) = map kind (getEdgesFrom g k)"
    by (simp add: getEdgesFrom_fixEdges paint_def)
  show "\<And>k ins. instructions (fixEdges g) k = Some ins \<Longrightarrow> escape ins \<Longrightarrow>
          instructions g k = Some ins"
    by (rule fixEdges_escaped)
qed

lemma InstructionGraph_new_justified:
  assumes "InstructionGraph_new su se eff p c o1 o2 o3 code stacks = Some g"
  shows "escape_justified su se g"
proof -
  from assms obtain g0 where
    d: "decode p c code stacks 0 \<lparr>instructions = Map.empty, edges = []\<rparr> = Some g0"
    and g: "g = fixEdges (fixLocals o3 (deoptimizeInstructions eff o2 (fixInstructions su se o1 g0)))"
    by (auto simp: InstructionGraph_new_def split: option.splits)
  have "\<forall>k. \<not> escape_at \<lparr>instructions = Map.empty, edges = []\<rparr> k"
    by (simp add: escape_at_def escape_in_def)
  with d have "\<forall>k. \<not> escape_at g0 k" by (rule decode_no_escape)
  then have "escape_justified su se g0" by (rule no_escape_justified)
  then have "escape_justified su se (fixInstructions su se o1 g0)"
    by (rule fixInstructions_justified)
  then have "escape_justified su se (deoptimizeInstructions eff o2 (fixInstructions su se o1 g0))"
    by (rule deoptimizeInstructions_justified)
  then show ?thesis
    unfolding g fixLocals_id by (rule fixEdges_justified)
qed

text \<open>
  What the constructor does establish, for every order in which the passes visit the
  instructions: an escaped instruction has an opcode of the unboxing whitelist other than
  the two local opcodes, and the edges that \<^verbatim>\<open>getEdges\<close> and \<^verbatim>\<open>getEdgesFrom\<close> return for
  it have kinds that support escaping.
\<close>

lemma escaped_instructions_checked_edges:
  assumes "InstructionGraph_new supportsUnboxing supportsEscaping eff producer isConsumedBy
             o1 o2 o3 mByteCode stacks = Some g"
    and "instructions g k = Some ins" and "escape ins"
  shows "supportsUnboxing (opcode ins) \<and> opcode ins \<noteq> LOAD_FAST \<and> opcode ins \<noteq> STORE_FAST
         \<and> (\<forall>e \<in> set (getEdges g k). supportsEscaping (kind e))
         \<and> (\<forall>e \<in> set (getEdgesFrom g k). supportsEscaping (kind e))"
  using InstructionGraph_new_justified [OF assms(1)] assms(2,3)
  unfolding escape_justified_def list_all_iff by blast

text \<open>The function with a join, through the constructor.\<close>

lemma join_decode:
  "decode ex_producer ex_isConsumedBy join_code join_stacks 0
     \<lparr>instructions = Map.empty, edges = []\<rparr> = Some join_initial"
  unfolding join_initial_def join_instructions_def join_edges_def
  by (simp add: decode.simps join_code_def join_stacks_def GET_OPCODE_def GET_OPARG_def
        add_instruction_def stackEdges_def ex_producer_def ex_isConsumedBy_def EXTENDED_ARG_def
        del: add_2_eq_Suc add_2_eq_Suc')

lemmas join_defs =
  join_deoptimized_def join_initial_def join_instructions_def join_edges_def join_order_def

lemma join_deoptimized_escape:
  "map (escape_at join_deoptimized) [0, 2, 4, 6, 8, 10, 12, 14, 16, 18]
     = [False, False, False, False, False, True, False, False, True, False]"
  by (simp add: join_defs eval_defs)

lemma join_deoptimized_edges: "edges join_deoptimized = join_edges"
  by (simp add: join_defs eval_defs)

lemma join_graph_eq: "join_graph = Some (fixEdges join_deoptimized)"
  by (simp add: join_graph_def InstructionGraph_new_def join_decode fixLocals_id
        join_deoptimized_def)

text \<open>
  C2. The claim asks that every inbound and every outbound edge of an escaped instruction
  has a kind that supports escaping, and \<^verbatim>\<open>fixInstructions\<close> says the same of itself
  (``Check that all inbound edges can be escaped'', \<^verbatim>\<open>allEdgesEscapable\<close>,
  \<^verbatim>\<open>allOutputsEscapable\<close>). The edges it checks come from \<^verbatim>\<open>getEdges\<close> and
  \<^verbatim>\<open>getEdgesFrom\<close>, which file the edges under their stack position, so of two
  edges at one position only the later one is checked. In the function with a join the
  integer constant pushed at 10 has two outbound edges at position 0: the one into the
  join at 6 carries kind Any, which does not support escaping, the later one into 16
  carries kind Integer. The constant is marked escaped and stays escaped to the end of
  the constructor, with its edge of kind Any.
\<close>

theorem escaped_instruction_has_unsupported_edge:
  "join_graph \<noteq> None
   \<and> escape_at (the join_graph) 10
   \<and> edges (the join_graph) ! 1 \<in> set (outbound_edges (the join_graph) 10)
   \<and> \<not> ex_supportsEscaping (kind (edges (the join_graph) ! 1))"
proof -
  have e: "edges (fixEdges join_deoptimized) = map (paint join_deoptimized) join_edges"
    by (simp add: fixEdges_edges_paint join_deoptimized_edges)
  have a: "escape_at (fixEdges join_deoptimized) 10"
    using join_deoptimized_escape by (simp add: fixEdges_escape)
  have b: "edges (fixEdges join_deoptimized) ! 1
             \<in> set (outbound_edges (fixEdges join_deoptimized) 10)"
    by (simp add: outbound_edges_def e join_edges_def paint_def)
  have c: "\<not> ex_supportsEscaping (kind (edges (fixEdges join_deoptimized) ! 1))"
    by (simp add: e join_edges_def paint_def ex_supportsEscaping_def)
  from a b c show ?thesis by (simp add: join_graph_eq)
qed

subsection \<open>EXTENDED_ARG\<close>

lemma wide_decode:
  "decode ex_producer ex_isConsumedBy wide_code Map.empty 0 \<lparr>instructions = Map.empty, edges = []\<rparr>
     = Some \<lparr>instructions = [0 \<mapsto> \<lparr>index = 0, opcode = 144, oparg = 1, escape = False\<rparr>,
                             2 \<mapsto> \<lparr>index = 2, opcode = 144, oparg = 258, escape = False\<rparr>,
                             4 \<mapsto> \<lparr>index = 4, opcode = 100, oparg = 3, escape = False\<rparr>],
             edges = []\<rparr>"
  by (simp add: decode.simps wide_code_def GET_OPCODE_def GET_OPARG_def
        add_instruction_def EXTENDED_ARG_def
        del: add_2_eq_Suc add_2_eq_Suc')

lemma wide1_decode:
  "decode ex_producer ex_isConsumedBy wide1_code Map.empty 0 \<lparr>instructions = Map.empty, edges = []\<rparr>
     = Some \<lparr>instructions = [0 \<mapsto> \<lparr>index = 0, opcode = 144, oparg = 1, escape = False\<rparr>,
                             2 \<mapsto> \<lparr>index = 2, opcode = 100, oparg = 258, escape = False\<rparr>],
             edges = []\<rparr>"
  by (simp add: decode.simps wide1_code_def GET_OPCODE_def GET_OPARG_def
        add_instruction_def EXTENDED_ARG_def
        del: add_2_eq_Suc add_2_eq_Suc')

text \<open>What the decoding loop records after a prefix, and that later iterations keep it.\<close>

lemma add_instruction_other:
  "k \<noteq> idx \<Longrightarrow> instructions (add_instruction p c st idx opc arg g) k = instructions g k"
  by (simp add: add_instruction_def)

lemma add_instruction_self:
  "instructions (add_instruction p c st idx opc arg g) idx
     = Some \<lparr>index = idx, opcode = opc, oparg = arg, escape = False\<rparr>"
  by (simp add: add_instruction_def)

lemma decode_keeps_below:
  "decode p c code st curByte g = Some g' \<Longrightarrow> k < curByte \<Longrightarrow> instructions g' k = instructions g k"
proof (induction p c code st curByte g rule: decode.induct)
  case (1 p c code st curByte g)
  show ?case
  proof (cases "curByte < 2 * length code")
    case False
    with "1.prems" show ?thesis by (simp add: decode.simps [of p c code st curByte g])
  next
    case inside: True
    show ?thesis
    proof (cases "GET_OPCODE code curByte = EXTENDED_ARG")
      case ext: True
      show ?thesis
      proof (cases "curByte + 2 < 2 * length code")
        case False
        with inside ext "1.prems"(1) show ?thesis
          by (simp add: decode.simps [of p c code st curByte g])
      next
        case more: True
        let ?g1 = "g\<lparr>instructions := (instructions g)(curByte \<mapsto>
                      \<lparr>index = curByte, opcode = EXTENDED_ARG,
                       oparg = GET_OPARG code curByte, escape = False\<rparr>)\<rparr>"
        let ?g2 = "add_instruction p c st (curByte + 2) (GET_OPCODE code (curByte + 2))
                 (push_bit 8 (GET_OPARG code curByte) OR GET_OPARG code (curByte + 2)) ?g1"
        have d: "decode p c code st (curByte + 2 + 2) ?g2 = Some g'"
          using "1.prems"(1) inside ext more
          by (simp add: decode.simps [of p c code st curByte g])
        have "k < curByte + 2 + 2" using "1.prems"(2) by simp
        from "1.IH"(1) [OF inside ext more d this]
        have "instructions g' k = instructions ?g2 k" .
        also have "\<dots> = instructions ?g1 k"
          using "1.prems"(2) by (simp add: add_instruction_other)
        also have "\<dots> = instructions g k"
          using "1.prems"(2) by simp
        finally show ?thesis .
      qed
    next
      case plain: False
      let ?g2 = "add_instruction p c st curByte (GET_OPCODE code curByte) (GET_OPARG code curByte) g"
      have d: "decode p c code st (curByte + 2) ?g2 = Some g'"
        using "1.prems"(1) inside plain
        by (simp add: decode.simps [of p c code st curByte g])
      have "k < curByte + 2" using "1.prems"(2) by simp
      from "1.IH"(2) [OF inside plain d this]
      have "instructions g' k = instructions ?g2 k" .
      also have "\<dots> = instructions g k"
        using "1.prems"(2) by (simp add: add_instruction_other)
      finally show ?thesis .
    qed
  qed
qed

lemma decode_prefix:
  "decode p c code st curByte g = Some g' \<Longrightarrow> h \<in> set (loop_heads code curByte) \<Longrightarrow>
   GET_OPCODE code h = EXTENDED_ARG \<Longrightarrow>
     instructions g' (h + 2)
       = Some \<lparr>index = h + 2, opcode = GET_OPCODE code (h + 2),
               oparg = push_bit 8 (GET_OPARG code h) OR GET_OPARG code (h + 2), escape = False\<rparr>"
proof (induction p c code st curByte g rule: decode.induct)
  case (1 p c code st curByte g)
  show ?case
  proof (cases "curByte < 2 * length code")
    case False
    with "1.prems"(2) show ?thesis by (simp add: loop_heads.simps [of code curByte])
  next
    case inside: True
    show ?thesis
    proof (cases "GET_OPCODE code curByte = EXTENDED_ARG")
      case ext: True
      show ?thesis
      proof (cases "curByte + 2 < 2 * length code")
        case False
        with inside ext "1.prems"(1) show ?thesis
          by (simp add: decode.simps [of p c code st curByte g])
      next
        case more: True
        let ?g1 = "g\<lparr>instructions := (instructions g)(curByte \<mapsto>
                      \<lparr>index = curByte, opcode = EXTENDED_ARG,
                       oparg = GET_OPARG code curByte, escape = False\<rparr>)\<rparr>"
        let ?g2 = "add_instruction p c st (curByte + 2) (GET_OPCODE code (curByte + 2))
                 (push_bit 8 (GET_OPARG code curByte) OR GET_OPARG code (curByte + 2)) ?g1"
        have d: "decode p c code st (curByte + 2 + 2) ?g2 = Some g'"
          using "1.prems"(1) inside ext more
          by (simp add: decode.simps [of p c code st curByte g])
        from "1.prems"(2) inside ext
        have "h = curByte \<or> h \<in> set (loop_heads code (curByte + 2 + 2))"
          by (simp add: loop_heads.simps [of code curByte])
        then show ?thesis
        proof
          assume h: "h = curByte"
          have "instructions g' (curByte + 2) = instructions ?g2 (curByte + 2)"
            using d by (rule decode_keeps_below) simp
          then show ?thesis
            unfolding h by (simp only: add_instruction_self)
        next
          assume "h \<in> set (loop_heads code (curByte + 2 + 2))"
          from "1.IH"(1) [OF inside ext more d this "1.prems"(3)] show ?thesis .
        qed
      qed
    next
      case plain: False
      let ?g2 = "add_instruction p c st curByte (GET_OPCODE code curByte) (GET_OPARG code curByte) g"
      have d: "decode p c code st (curByte + 2) ?g2 = Some g'"
        using "1.prems"(1) inside plain
        by (simp add: decode.simps [of p c code st curByte g])
      from "1.prems"(2) inside plain
      have "h = curByte \<or> h \<in> set (loop_heads code (curByte + 2))"
        by (simp add: loop_heads.simps [of code curByte])
      then show ?thesis
      proof
        assume "h = curByte"
        with plain "1.prems"(3) show ?thesis by simp
      next
        assume "h \<in> set (loop_heads code (curByte + 2))"
        from "1.IH"(2) [OF inside plain d this "1.prems"(3)] show ?thesis .
      qed
    qed
  qed
qed

text \<open>The passes keep index, opcode and oparg of every instruction.\<close>

lemma same_code_refl: "same_code i i"
  by (simp add: same_code_def)

lemma same_code_trans: "same_code i j \<Longrightarrow> same_code j k \<Longrightarrow> same_code i k"
  by (simp add: same_code_def)

lemma fixInstruction_same_code:
  "instructions g j = Some i \<Longrightarrow>
     \<exists>i'. instructions (fixInstruction su se k g) j = Some i' \<and> same_code i i'"
  using fixInstruction_cases [of su se k g]
  by (auto simp: same_code_def)

lemma fixInstructions_same_code:
  "instructions g j = Some i \<Longrightarrow>
     \<exists>i'. instructions (fixInstructions su se order g) j = Some i' \<and> same_code i i'"
  unfolding fixInstructions_def
proof (induction order arbitrary: g i)
  case Nil
  then show ?case by (simp add: same_code_refl)
next
  case (Cons k order)
  from fixInstruction_same_code [OF Cons.prems, of su se k]
  obtain i1 where a: "instructions (fixInstruction su se k g) j = Some i1" and b: "same_code i i1"
    by blast
  from Cons.IH [OF a] obtain i2 where
    "instructions (fold (fixInstruction su se) order (fixInstruction su se k g)) j = Some i2"
    and "same_code i1 i2" by blast
  with b show ?case by (auto intro: same_code_trans)
qed

lemma deoptimizeInstruction_same_code:
  "instructions g j = Some i \<Longrightarrow>
     \<exists>i'. instructions (deoptimizeInstruction eff k g) j = Some i' \<and> same_code i i'"
proof (cases "k = j")
  case False
  then show "instructions g j = Some i \<Longrightarrow> ?thesis"
    using deoptimizeInstruction_other [of g j i k eff] by (auto simp: same_code_refl)
next
  case True
  assume i: "instructions g j = Some i"
  have "instructions (deoptimizeInstruction eff j g) j = Some i
        \<or> instructions (deoptimizeInstruction eff j g) j = Some (i\<lparr>escape := False\<rparr>)"
    using i
    by (simp add: deoptimizeInstruction_def Let_def split_beta clear_escape_def subscript_keeps)
  then show ?thesis
    unfolding True by (auto simp: same_code_def)
qed

lemma deoptimizeInstructions_same_code:
  "instructions g j = Some i \<Longrightarrow>
     \<exists>i'. instructions (deoptimizeInstructions eff order g) j = Some i' \<and> same_code i i'"
  unfolding deoptimizeInstructions_def
proof (induction order arbitrary: g i)
  case Nil
  then show ?case by (simp add: same_code_refl)
next
  case (Cons k order)
  from deoptimizeInstruction_same_code [OF Cons.prems, of eff k]
  obtain i1 where a: "instructions (deoptimizeInstruction eff k g) j = Some i1" and b: "same_code i i1"
    by blast
  from Cons.IH [OF a] obtain i2 where
    "instructions (fold (deoptimizeInstruction eff) order (deoptimizeInstruction eff k g)) j = Some i2"
    and "same_code i1 i2" by blast
  with b show ?case by (auto intro: same_code_trans)
qed

lemma fixEdges_loop_keeps: "m j = Some i \<Longrightarrow> snd (fixEdges_loop es m) j = Some i"
proof (induction es arbitrary: m)
  case Nil
  then show ?case by simp
next
  case (Cons e es)
  have "snd (fixEdge m e) j = Some i"
    unfolding fixEdge_snd_eq using Cons.prems by (simp add: subscript_keeps)
  from Cons.IH [of "snd (fixEdge m e)", OF this] show ?case by (simp add: split_beta)
qed

lemma fixEdges_keeps: "instructions g j = Some i \<Longrightarrow> instructions (fixEdges g) j = Some i"
  using fixEdges_loop_keeps [of "instructions g" j i "edges g"]
  by (simp add: fixEdges_def split_beta)

text \<open>
  C6. The claim asks for the full collapsed oparg at the terminating index for prefix
  sequences of any length. The decoding loop reads one unit after a prefix and then
  records an instruction, whatever that unit is. With two prefixes \<open>1\<close>, \<open>2\<close> before a
  constant load with oparg \<open>3\<close>, the second prefix is recorded at index 2 as an
  instruction with oparg \<open>258\<close>, and the load at the terminating index 4 keeps the oparg
  \<open>3\<close> of its own unit; the collapsed oparg of the sequence is \<open>66051\<close>.
\<close>

theorem extended_arg_chain_not_collapsed:
  "wide_graph \<noteq> None
   \<and> instructions (the wide_graph) 4 = Some \<lparr>index = 4, opcode = 100, oparg = 3, escape = False\<rparr>
   \<and> instructions (the wide_graph) 2 = Some \<lparr>index = 2, opcode = 144, oparg = 258, escape = False\<rparr>
   \<and> collapsed_oparg [1, 2, 3] = 66051"
  by (simp add: wide_graph_def InstructionGraph_new_def wide_decode fixLocals_id
        fixEdges_def eval_defs collapsed_oparg_def)

text \<open>
  What does hold: for every prefix at which an iteration of the loop starts (the first
  prefix of every sequence), the instruction recorded at the next index has the opcode
  of the unit there and the collapsed oparg of the two units. For a sequence with one
  prefix this is the full oparg at the terminating index.
\<close>

lemma first_prefix_collapsed:
  assumes "InstructionGraph_new su se eff p c o1 o2 o3 mByteCode stacks = Some g"
    and "h \<in> set (loop_heads mByteCode 0)"
    and "GET_OPCODE mByteCode h = EXTENDED_ARG"
  shows "\<exists>ins. instructions g (h + 2) = Some ins \<and> index ins = h + 2
           \<and> opcode ins = GET_OPCODE mByteCode (h + 2)
           \<and> oparg ins = collapsed_oparg [GET_OPARG mByteCode h, GET_OPARG mByteCode (h + 2)]"
proof -
  from assms(1) obtain g0 where
    d: "decode p c mByteCode stacks 0 \<lparr>instructions = Map.empty, edges = []\<rparr> = Some g0"
    and g: "g = fixEdges (fixLocals o3 (deoptimizeInstructions eff o2 (fixInstructions su se o1 g0)))"
    by (auto simp: InstructionGraph_new_def split: option.splits)
  let ?i0 = "\<lparr>index = h + 2, opcode = GET_OPCODE mByteCode (h + 2),
              oparg = push_bit 8 (GET_OPARG mByteCode h) OR GET_OPARG mByteCode (h + 2),
              escape = False\<rparr>"
  have i0: "instructions g0 (h + 2) = Some ?i0"
    using d assms(2,3) by (rule decode_prefix)
  from fixInstructions_same_code [OF i0, of su se o1] obtain i1 where
    i1: "instructions (fixInstructions su se o1 g0) (h + 2) = Some i1" and s1: "same_code ?i0 i1"
    by blast
  from deoptimizeInstructions_same_code [OF i1, of eff o2] obtain i2 where
    i2: "instructions (deoptimizeInstructions eff o2 (fixInstructions su se o1 g0)) (h + 2) = Some i2"
    and s2: "same_code i1 i2"
    by blast
  have "instructions g (h + 2) = Some i2"
    unfolding g fixLocals_id using i2 by (rule fixEdges_keeps)
  moreover have "same_code ?i0 i2" using s1 s2 by (rule same_code_trans)
  ultimately show ?thesis
    by (simp add: same_code_def collapsed_oparg_def)
qed

lemma extended_arg_single_prefix:
  "wide1_graph \<noteq> None
   \<and> instructions (the wide1_graph) 2 = Some \<lparr>index = 2, opcode = 100, oparg = 258, escape = False\<rparr>
   \<and> collapsed_oparg [1, 2] = 258"
  by (simp add: wide1_graph_def InstructionGraph_new_def wide1_decode fixLocals_id
        fixEdges_def eval_defs collapsed_oparg_def)

section \<open>Properties of the abstract interpreter state\<close>

subsection \<open>AbstractLocalInfo\<close>

lemma constructed_iff:
  "constructed x \<longleftrightarrow> Value (ValueInfo x) \<noteq> None \<and> \<not> undefined_leaked x"
  by (auto simp: constructed_def AbstractLocalInfo_new_def undefined_leaked_def)

lemma merge_value_undefined:
  "AbstractValue_merge_with u v = AVK_Undefined \<Longrightarrow> u = AVK_Undefined \<and> v = AVK_Undefined"
  by (auto simp: AbstractValue_merge_with_def kind_join_def split: if_splits)

lemma merge_value_commute: "AbstractValue_merge_with u v = AbstractValue_merge_with v u"
  by (auto simp: AbstractValue_merge_with_def kind_join_def)

lemma merge_value_idem: "AbstractValue_merge_with u u = u"
  by (simp add: AbstractValue_merge_with_def)

lemma combine_commute: "AbstractSource_combine s t = AbstractSource_combine t s"
  by (cases s; cases t) (auto simp: Un_commute)

lemma combine_idem: "AbstractSource_combine s s = s"
  by (cases s) simp_all

lemma merge_vws_commute:
  "AbstractValueWithSources_merge_with a b = AbstractValueWithSources_merge_with b a"
  by (simp add: AbstractValueWithSources_merge_with_def merge_value_commute [of _ _]
        combine_commute [of "Sources a"] split: option.splits)

lemma merge_with_constructed:
  assumes "constructed a" and "constructed b"
  shows "\<exists>z. merge_with a b = Inr z \<and> \<not> undefined_leaked z \<and> constructed z
              \<and> IsMaybeUndefined z = (IsMaybeUndefined a \<or> IsMaybeUndefined b)"
proof -
  from assms obtain u v where u: "Value (ValueInfo a) = Some u" and v: "Value (ValueInfo b) = Some v"
    by (auto simp: constructed_iff)
  let ?vi = "\<lparr>Value = Some (AbstractValue_merge_with u v),
              Sources = AbstractSource_combine (Sources (ValueInfo a)) (Sources (ValueInfo b))\<rparr>"
  let ?f = "IsMaybeUndefined a \<or> IsMaybeUndefined b"
  have m: "AbstractValueWithSources_merge_with (ValueInfo a) (ValueInfo b) = Some ?vi"
    by (simp add: AbstractValueWithSources_merge_with_def u v)
  have ok: "\<not> (AbstractValue_merge_with u v = AVK_Undefined \<and> \<not> ?f)"
  proof
    assume h: "AbstractValue_merge_with u v = AVK_Undefined \<and> \<not> ?f"
    then have "u = AVK_Undefined" by (blast dest: merge_value_undefined)
    with u assms(1) have "IsMaybeUndefined a"
      by (simp add: constructed_iff undefined_leaked_def)
    with h show False by simp
  qed
  let ?z = "\<lparr>ValueInfo = ?vi, IsMaybeUndefined = ?f\<rparr>"
  have r: "merge_with a b = Inr ?z"
    using ok by (simp add: merge_with_def m AbstractLocalInfo_new_def)
  have "\<not> undefined_leaked ?z" using ok by (simp add: undefined_leaked_def)
  moreover from this have "constructed ?z" by (simp add: constructed_iff)
  ultimately show ?thesis using r by simp
qed

text \<open>
  C8. The Undefined value never comes with the flag \<open>IsMaybeUndefined\<close> off: what the
  constructor returns satisfies this (its assertion), and the merge of two local infos
  that the constructor accepts is again one that it accepts, with the flag the
  disjunction of the flags of the two. The constructor also asserts that the value
  pointer is not null, which the merge needs, so the two inputs are taken as accepted by
  the constructor.
\<close>

theorem local_info_invariant:
  "(AbstractLocalInfo_new valueInfo isUndefined = Inr x \<longrightarrow> \<not> undefined_leaked x)
   \<and> (constructed a \<and> constructed b \<longrightarrow>
        (\<exists>z. merge_with a b = Inr z \<and> \<not> undefined_leaked z
             \<and> IsMaybeUndefined z = (IsMaybeUndefined a \<or> IsMaybeUndefined b)))"
proof
  show "AbstractLocalInfo_new valueInfo isUndefined = Inr x \<longrightarrow> \<not> undefined_leaked x"
    by (auto simp: AbstractLocalInfo_new_def undefined_leaked_def split: if_splits)
  show "constructed a \<and> constructed b \<longrightarrow>
        (\<exists>z. merge_with a b = Inr z \<and> \<not> undefined_leaked z
             \<and> IsMaybeUndefined z = (IsMaybeUndefined a \<or> IsMaybeUndefined b))"
    using merge_with_constructed [of a b] by blast
qed

theorem local_info_invariant_witness:
  "AbstractLocalInfo_new (ValueInfo ex_undefined_local) True = Inr ex_undefined_local
   \<and> \<not> undefined_leaked ex_undefined_local
   \<and> constructed ex_int_local \<and> constructed ex_undefined_local
   \<and> merge_with ex_int_local ex_undefined_local
        = Inr \<lparr>ValueInfo = ValueInfo ex_int_local, IsMaybeUndefined = True\<rparr>
   \<and> \<not> undefined_leaked \<lparr>ValueInfo = ValueInfo ex_int_local, IsMaybeUndefined = True\<rparr>"
proof -
  have n: "AbstractLocalInfo_new (ValueInfo ex_undefined_local) True = Inr ex_undefined_local"
    by (simp add: AbstractLocalInfo_new_def ex_undefined_local_def)
  have c1: "constructed ex_int_local"
    by (simp add: constructed_def AbstractLocalInfo_new_def ex_int_local_def)
  have c2: "constructed ex_undefined_local"
    by (simp add: constructed_def AbstractLocalInfo_new_def ex_undefined_local_def)
  have m: "merge_with ex_int_local ex_undefined_local
             = Inr \<lparr>ValueInfo = ValueInfo ex_int_local, IsMaybeUndefined = True\<rparr>"
    by (simp add: merge_with_def AbstractValueWithSources_merge_with_def AbstractValue_merge_with_def
          kind_join_def AbstractLocalInfo_new_def ex_int_local_def ex_undefined_local_def)
  from local_info_invariant [of "ValueInfo ex_undefined_local" True ex_undefined_local
         ex_int_local ex_undefined_local] n c1 c2 m
  show ?thesis by auto
qed

text \<open>
  C9. The merge of local infos is commutative, and idempotent on every local info that
  the constructor accepts (on any other one the constructor's assertion fails, or the
  merge dereferences a null value).
\<close>

theorem merge_with_commutative_idempotent:
  "merge_with x y = merge_with y x \<and> (constructed x \<longrightarrow> merge_with x x = Inr x)"
proof
  show "merge_with x y = merge_with y x"
    unfolding merge_with_def merge_vws_commute [of "ValueInfo x" "ValueInfo y"]
      disj_commute [of "IsMaybeUndefined x" "IsMaybeUndefined y"]
    by (rule refl)
  show "constructed x \<longrightarrow> merge_with x x = Inr x"
  proof
    assume c: "constructed x"
    then obtain u where u: "Value (ValueInfo x) = Some u" by (auto simp: constructed_iff)
    have "AbstractValueWithSources_merge_with (ValueInfo x) (ValueInfo x) = Some (ValueInfo x)"
      using u by (simp add: AbstractValueWithSources_merge_with_def merge_value_idem combine_idem)
    then show "merge_with x x = Inr x"
      using c by (simp add: merge_with_def constructed_def)
  qed
qed

theorem merge_with_commutative_idempotent_witness:
  "constructed ex_int_local
   \<and> merge_with ex_int_local ex_int_local = Inr ex_int_local
   \<and> merge_with ex_int_local ex_undefined_local = merge_with ex_undefined_local ex_int_local"
proof -
  have c: "constructed ex_int_local"
    by (simp add: constructed_def AbstractLocalInfo_new_def ex_int_local_def)
  from merge_with_commutative_idempotent [of ex_int_local ex_undefined_local]
       merge_with_commutative_idempotent [of ex_int_local ex_int_local] c
  show ?thesis by blast
qed

subsection \<open>InterpreterState\<close>

text \<open>
  C10. On a non-empty stack \<^verbatim>\<open>pop\<close> returns the value of the top entry, removes exactly
  that entry, sets the escape bit of its source (and nothing else of it) and changes no
  other source, no remaining stack entry and no local; \<^verbatim>\<open>pop_no_escape\<close> returns the
  top entry, removes it and leaves the store of sources as it was. On an empty stack
  the assertion of either fails. The entries hold pointers: an entry or a local that
  shares the popped entry's source sees that source's bit set, the entry itself is the
  same.
\<close>

theorem pop_frame:
  "(m_stack s \<noteq> [] \<longrightarrow>
      (\<exists>store' s'. pop store s = Inr (Value (last (m_stack s)), store', s')
         \<and> m_stack s = m_stack s' @ [last (m_stack s)]
         \<and> m_locals s' = m_locals s
         \<and> (\<forall>r. Sources (last (m_stack s)) = Some r \<longrightarrow>
               escapes_bit (store' r) \<and> producers (store' r) = producers (store r)
               \<and> consumers (store' r) = consumers (store r))
         \<and> (\<forall>r. Sources (last (m_stack s)) \<noteq> Some r \<longrightarrow> store' r = store r))
      \<and> pop_no_escape store s = Inr (last (m_stack s), store, s\<lparr>m_stack := butlast (m_stack s)\<rparr>))
   \<and> (m_stack s = [] \<longrightarrow>
        pop store s = Inl AssertionFailed \<and> pop_no_escape store s = Inl AssertionFailed)"
proof (intro conjI impI)
  assume ne: "m_stack s \<noteq> []"
  let ?top = "last (m_stack s)"
  let ?store = "escapes ?top store"
  let ?s = "s\<lparr>m_stack := butlast (m_stack s)\<rparr>"
  have p: "pop store s = Inr (Value ?top, ?store, ?s)"
    using ne by (simp add: pop_def Let_def)
  have a: "m_stack s = m_stack ?s @ [?top]" using ne by simp
  have b: "m_locals ?s = m_locals s" by simp
  have c: "\<forall>r. Sources ?top = Some r \<longrightarrow>
             escapes_bit (?store r) \<and> producers (?store r) = producers (store r)
             \<and> consumers (?store r) = consumers (store r)"
    by (simp add: escapes_def)
  have d: "\<forall>r. Sources ?top \<noteq> Some r \<longrightarrow> ?store r = store r"
    by (auto simp: escapes_def split: option.splits)
  from p a b c d
  show "\<exists>store' s'. pop store s = Inr (Value ?top, store', s')
         \<and> m_stack s = m_stack s' @ [?top]
         \<and> m_locals s' = m_locals s
         \<and> (\<forall>r. Sources ?top = Some r \<longrightarrow>
               escapes_bit (store' r) \<and> producers (store' r) = producers (store r)
               \<and> consumers (store' r) = consumers (store r))
         \<and> (\<forall>r. Sources ?top \<noteq> Some r \<longrightarrow> store' r = store r)"
    by blast
  show "pop_no_escape store s = Inr (?top, store, ?s)"
    using ne by (simp add: pop_no_escape_def Let_def)
next
  assume "m_stack s = []"
  then show "pop store s = Inl AssertionFailed" by (simp add: pop_def)
next
  assume "m_stack s = []"
  then show "pop_no_escape store s = Inl AssertionFailed" by (simp add: pop_no_escape_def)
qed

theorem pop_frame_witness:
  "m_stack ex_state \<noteq> []
   \<and> map_sum id (\<lambda>(v, store', s'). (v, map (\<lambda>r. escapes_bit (store' r)) [1, 2], m_stack s', m_locals s'))
        (pop ex_store ex_state)
       = Inr (Some AVK_Float, [False, True],
              [\<lparr>Value = Some AVK_Integer, Sources = Some 1\<rparr>], m_locals ex_state)
   \<and> m_stack empty_state = []
   \<and> pop ex_store empty_state = Inl AssertionFailed
   \<and> pop_no_escape ex_store empty_state = Inl AssertionFailed"
proof -
  have ne: "m_stack ex_state \<noteq> []" by (simp add: ex_state_def)
  have em: "m_stack empty_state = []" by (simp add: empty_state_def)
  have t: "last (m_stack ex_state) = \<lparr>Value = Some AVK_Float, Sources = Some 2\<rparr>"
    by (simp add: ex_state_def)
  from pop_frame [of ex_state ex_store] ne obtain store' s' where
    p: "pop ex_store ex_state = Inr (Value (last (m_stack ex_state)), store', s')"
    and st: "m_stack ex_state = m_stack s' @ [last (m_stack ex_state)]"
    and lo: "m_locals s' = m_locals ex_state"
    and e: "\<forall>r. Sources (last (m_stack ex_state)) = Some r \<longrightarrow>
               escapes_bit (store' r) \<and> producers (store' r) = producers (ex_store r)
               \<and> consumers (store' r) = consumers (ex_store r)"
    and o: "\<forall>r. Sources (last (m_stack ex_state)) \<noteq> Some r \<longrightarrow> store' r = ex_store r"
    by blast
  have e2: "escapes_bit (store' 2)" using e t by simp
  have e1: "\<not> escapes_bit (store' 1)" using o t by (simp add: ex_store_def)
  have st': "m_stack s' = [\<lparr>Value = Some AVK_Integer, Sources = Some 1\<rparr>]"
    using st t by (simp add: ex_state_def)
  from pop_frame [of empty_state ex_store] em
  have "pop ex_store empty_state = Inl AssertionFailed
        \<and> pop_no_escape ex_store empty_state = Inl AssertionFailed"
    by blast
  with ne em p t e1 e2 st' lo show ?thesis by simp
qed

end
